theory Spec2Isabelle
  imports Complex_Main
begin

section \<open>Numbers, vectors and colours\<close>

text \<open>
  The renderer of \<^verbatim>\<open>src/tiny-renderer.ts\<close> computes with JavaScript numbers.
  Coordinates, depths, texture coordinates and the intensity are finite numbers here and
  are modelled as \<^typ>\<open>real\<close>, with exact arithmetic: the rounding of doubles is not
  modelled. The values that are not finite numbers and that the code
  itself produces are modelled explicitly: \<^verbatim>\<open>-Infinity\<close> in the depth buffer, and
  \<^verbatim>\<open>undefined\<close> (with the \<^verbatim>\<open>NaN\<close> it turns into under arithmetic), which
  a read outside an array yields, as \<open>None\<close>.
\<close>

type_synonym Vector2 = "real \<times> real"
type_synonym Vector3 = "real \<times> real \<times> real"

text \<open>A colour channel is a number, or \<open>None\<close> for \<^verbatim>\<open>undefined\<close>/\<^verbatim>\<open>NaN\<close>.\<close>

type_synonym channel = "real option"
type_synonym Color = "channel \<times> channel \<times> channel \<times> channel"

text \<open>\<^verbatim>\<open>color[i]\<close> for the loop index \<open>i\<close> of \<^verbatim>\<open>pixel\<close>.\<close>

fun chan :: "Color \<Rightarrow> nat \<Rightarrow> channel" where
  "chan (cr, cg, cb, ca) i =
     (if i = 0 then cr else if i = 1 then cg else if i = 2 then cb
      else if i = 3 then ca else None)"

text \<open>\<^verbatim>\<open>Math.trunc\<close>: rounding toward zero.\<close>

definition trunc :: "real \<Rightarrow> int" where
  "trunc v = (if 0 \<le> v then \<lfloor>v\<rfloor> else \<lceil>v\<rceil>)"

section \<open>The pixel buffer: an \<^verbatim>\<open>ImageData\<close> with its \<^verbatim>\<open>Uint8ClampedArray\<close>\<close>

record ImageData =
  iwidth :: int
  iheight :: int
  idata :: "nat list"

text \<open>
  Storing a number into a \<^verbatim>\<open>Uint8ClampedArray\<close> converts it: \<^verbatim>\<open>NaN\<close> and
  \<^verbatim>\<open>undefined\<close> become 0, the number is clamped to \<open>[0, 255]\<close> and rounded to
  the nearest integer, a tie going to the even one.
\<close>

definition ToUint8Clamp :: "channel \<Rightarrow> nat" where
  "ToUint8Clamp c =
     (case c of
        None \<Rightarrow> 0
      | Some v \<Rightarrow>
          if v \<le> 0 then 0
          else if 255 \<le> v then 255
          else if real_of_int \<lfloor>v\<rfloor> + 1 / 2 < v then nat (\<lfloor>v\<rfloor> + 1)
          else if v < real_of_int \<lfloor>v\<rfloor> + 1 / 2 then nat \<lfloor>v\<rfloor>
          else if even \<lfloor>v\<rfloor> then nat \<lfloor>v\<rfloor>
          else nat (\<lfloor>v\<rfloor> + 1))"

text \<open>
  \<^verbatim>\<open>data[i] = v\<close> on a typed array: an index outside the array is ignored, the
  array never grows.
\<close>

definition ta_store :: "nat list \<Rightarrow> int \<Rightarrow> channel \<Rightarrow> nat list" where
  "ta_store d i v =
     (if 0 \<le> i \<and> i < int (length d) then d[nat i := ToUint8Clamp v] else d)"

text \<open>\<^verbatim>\<open>data[i]\<close> read as a number: \<^verbatim>\<open>undefined\<close> outside the array.\<close>

definition ta_load :: "nat list \<Rightarrow> int \<Rightarrow> channel" where
  "ta_load d i =
     (if 0 \<le> i \<and> i < int (length d) then Some (real (d ! nat i)) else None)"

text \<open>
  Modelled from the spec: the constant \<^verbatim>\<open>BYTES_PER_PIXEL\<close> of the module
  \<^verbatim>\<open>./image\<close>, which is not among the sources; the spec's pixel buffer has
  4 bytes per pixel in RGBA order.
\<close>

definition BYTES_PER_PIXEL :: nat where
  "BYTES_PER_PIXEL = 4"

section \<open>The depth buffer: a JavaScript \<^verbatim>\<open>Array\<close> of numbers\<close>

datatype zval = NegInfinity | Finite real

text \<open>
  A plain array has a length and elements; an element that was never stored reads as
  \<^verbatim>\<open>undefined\<close> (\<open>None\<close>). A store at an index at or beyond the length extends the
  array; a store at a negative index adds a property and leaves the length alone.
\<close>

record JSArray =
  alength :: nat
  aelems :: "int \<Rightarrow> zval option"

definition arr_get :: "JSArray \<Rightarrow> int \<Rightarrow> zval option" where
  "arr_get a i = aelems a i"

definition arr_set :: "JSArray \<Rightarrow> int \<Rightarrow> zval \<Rightarrow> JSArray" where
  "arr_set a i v =
     \<lparr>alength = (if 0 \<le> i then max (alength a) (nat i + 1) else alength a),
      aelems = (aelems a)(i := Some v)\<rparr>"

text \<open>
  \<^verbatim>\<open>z <= e\<close> for a finite \<open>z\<close> and an element read from the depth buffer: false
  against \<^verbatim>\<open>undefined\<close> (which converts to \<^verbatim>\<open>NaN\<close>) and against
  \<^verbatim>\<open>-Infinity\<close>.
\<close>

fun num_le :: "real \<Rightarrow> zval option \<Rightarrow> bool" where
  "num_le z None = False"
| "num_le z (Some NegInfinity) = False"
| "num_le z (Some (Finite d)) = (z \<le> d)"

section \<open>The renderer\<close>

record TinyRenderer =
  imageData :: ImageData
  zBuffer :: JSArray

definition width :: "TinyRenderer \<Rightarrow> int" where
  "width r = iwidth (imageData r)"

definition height :: "TinyRenderer \<Rightarrow> int" where
  "height r = iheight (imageData r)"

subsection \<open>\<^verbatim>\<open>pixel\<close>\<close>

text \<open>The loop \<^verbatim>\<open>for (let i = 0; i < BYTES_PER_PIXEL; i++)\<close> of \<^verbatim>\<open>pixel\<close>.\<close>

function pixel_loop :: "nat list \<Rightarrow> int \<Rightarrow> Color \<Rightarrow> nat \<Rightarrow> nat list" where
  "pixel_loop d offset color i =
     (if i < BYTES_PER_PIXEL
      then pixel_loop (ta_store d (offset + int i) (chan color i)) offset color (i + 1)
      else d)"
  by pat_completeness auto
termination
  by (relation "measure (\<lambda>(d, offset, color, i). BYTES_PER_PIXEL - i)") auto

declare pixel_loop.simps [simp del]

definition pixel :: "TinyRenderer \<Rightarrow> Vector2 \<Rightarrow> Color \<Rightarrow> TinyRenderer" where
  "pixel r v color =
     (let x = trunc (fst v);
          y = trunc (snd v);
          offset = (y * width r + x) * int BYTES_PER_PIXEL
      in r\<lparr>imageData := (imageData r)\<lparr>idata := pixel_loop (idata (imageData r)) offset color 0\<rparr>\<rparr>)"

subsection \<open>\<^verbatim>\<open>line\<close>: Bresenham's algorithm\<close>

text \<open>
  The loop \<^verbatim>\<open>for (let x = x0; x <= x1; x += 1)\<close> with its running \<open>y\<close> and
  \<open>carry\<close>.
\<close>

function line_loop ::
  "TinyRenderer \<Rightarrow> bool \<Rightarrow> Color \<Rightarrow> real \<Rightarrow> real \<Rightarrow> real \<Rightarrow> real \<Rightarrow> real \<Rightarrow> real \<Rightarrow> real
     \<Rightarrow> TinyRenderer" where
  "line_loop r steep color sy dx dy x1 x y carry =
     (if x \<le> x1
      then
        (if carry + sy > dx
         then line_loop (if steep then pixel r (y, x) color else pixel r (x, y) color)
                steep color sy dx dy x1 (x + 1) (y + (if dy > 0 then 1 else - 1))
                (carry + sy - dx * 2)
         else line_loop (if steep then pixel r (y, x) color else pixel r (x, y) color)
                steep color sy dx dy x1 (x + 1) y (carry + sy))
      else r)"
  by pat_completeness auto
termination
proof (relation "measure (\<lambda>(r, steep, color, sy, dx, dy, x1, x, y, carry). nat (\<lfloor>x1 - x\<rfloor> + 1))")
  show "wf (measure (\<lambda>(r, steep, color, sy, dx, dy, x1, x, y, carry). nat (\<lfloor>x1 - x\<rfloor> + 1)))"
    by simp
next
  fix r :: TinyRenderer and steep :: bool and color :: Color
    and sy dx dy x1 x y carry :: real
  assume le: "x \<le> x1"
  have step: "\<lfloor>x1 - (x + 1)\<rfloor> = \<lfloor>x1 - x\<rfloor> - 1"
  proof -
    have "x1 - (x + 1) = (x1 - x) - 1" by simp
    then show ?thesis by (simp only: floor_diff_one)
  qed
  have nonneg: "0 \<le> \<lfloor>x1 - x\<rfloor>" using le by simp
  have dec: "nat (\<lfloor>x1 - (x + 1)\<rfloor> + 1) < nat (\<lfloor>x1 - x\<rfloor> + 1)"
    using step nonneg by simp
  {
    show "((if steep then pixel r (y, x) color else pixel r (x, y) color, steep, color, sy, dx, dy,
            x1, x + 1, y + (if 0 < dy then 1 else - 1), carry + sy - dx * 2),
           r, steep, color, sy, dx, dy, x1, x, y, carry)
          \<in> measure (\<lambda>(r, steep, color, sy, dx, dy, x1, x, y, carry). nat (\<lfloor>x1 - x\<rfloor> + 1))"
      using dec by simp
  }
  {
    show "((if steep then pixel r (y, x) color else pixel r (x, y) color, steep, color, sy, dx, dy,
            x1, x + 1, y, carry + sy),
           r, steep, color, sy, dx, dy, x1, x, y, carry)
          \<in> measure (\<lambda>(r, steep, color, sy, dx, dy, x1, x, y, carry). nat (\<lfloor>x1 - x\<rfloor> + 1))"
      using dec by simp
  }
qed

declare line_loop.simps [simp del]

definition line :: "TinyRenderer \<Rightarrow> Vector2 \<Rightarrow> Vector2 \<Rightarrow> Color \<Rightarrow> TinyRenderer" where
  "line r v0 v1 color =
     (let steep = (\<bar>snd v1 - snd v0\<bar> > \<bar>fst v1 - fst v0\<bar>);
          p0 = (if steep then (snd v0, fst v0) else v0);
          p1 = (if steep then (snd v1, fst v1) else v1);
          q0 = (if fst p0 > fst p1 then p1 else p0);
          q1 = (if fst p0 > fst p1 then p0 else p1);
          dx = fst q1 - fst q0;
          dy = snd q1 - snd q0;
          sy = \<bar>dy\<bar> * 2
      in line_loop r steep color sy dx dy (fst q1) (fst q0) (snd q0) 0)"

subsection \<open>The helpers of \<^verbatim>\<open>triangle\<close> that are not among the sources\<close>

text \<open>
  Modelled from the spec: \<^verbatim>\<open>barycentric\<close> of the module \<^verbatim>\<open>./triangle\<close>, which
  is not among the sources. The spec (4.1): the weights of a point \<open>P\<close> against the 2D
  projections of \<open>A\<close>, \<open>B\<close>, \<open>C\<close> are the cross-product ratios relative to the full
  (signed, doubled) area of the triangle; when that area is zero the evaluator returns the
  sentinel \<open>(-1, 1, 1)\<close>.
\<close>

definition cross2 :: "Vector2 \<Rightarrow> Vector2 \<Rightarrow> Vector2 \<Rightarrow> real" where
  "cross2 a b p = (fst b - fst a) * (snd p - snd a) - (snd b - snd a) * (fst p - fst a)"

definition xy :: "Vector3 \<Rightarrow> Vector2" where
  "xy v = (fst v, fst (snd v))"

definition barycentric :: "Vector3 \<Rightarrow> Vector3 \<Rightarrow> Vector3 \<Rightarrow> Vector2 \<Rightarrow> Vector3" where
  "barycentric a b c p =
     (let area = cross2 (xy a) (xy b) (xy c)
      in if area = 0 then (- 1, 1, 1)
         else (cross2 (xy b) (xy c) p / area,
               cross2 (xy c) (xy a) p / area,
               cross2 (xy a) (xy b) p / area))"

text \<open>
  Modelled from the spec: \<^verbatim>\<open>getPixel\<close> of the module \<^verbatim>\<open>./image\<close>, which is not
  among the sources. The spec (4.2, 4.4): the coordinates are truncated to integer texel
  indices and the texel's four channels are read at the row-major offset
  \<open>(y * W + x) * 4\<close>, with no wrapping and no clamping. A read outside the texture's
  data yields \<^verbatim>\<open>undefined\<close> channels.
\<close>

definition getPixel :: "ImageData \<Rightarrow> Vector2 \<Rightarrow> Color" where
  "getPixel img v =
     (let x = trunc (fst v);
          y = trunc (snd v);
          offset = (y * iwidth img + x) * int BYTES_PER_PIXEL
      in (ta_load (idata img) offset, ta_load (idata img) (offset + 1),
          ta_load (idata img) (offset + 2), ta_load (idata img) (offset + 3)))"

text \<open>
  Modelled from the spec: \<^verbatim>\<open>scale\<close> of the module \<^verbatim>\<open>./linear-algebra\<close>, which
  is not among the sources: every component multiplied by the scalar (the product with
  \<^verbatim>\<open>undefined\<close> is \<^verbatim>\<open>NaN\<close>).
\<close>

definition scale :: "channel list \<Rightarrow> real \<Rightarrow> channel list" where
  "scale v k = map (map_option (\<lambda>c. c * k)) v"

subsection \<open>\<^verbatim>\<open>triangle\<close>\<close>

text \<open>
  The body of the two nested loops of \<^verbatim>\<open>triangle\<close>, at the pixel \<open>(x, y)\<close>. The
  barycentric evaluator is a parameter, so that a property can be stated for every
  evaluator that meets a contract; the renderer itself uses \<^const>\<open>barycentric\<close>.
\<close>

type_synonym Barycentric = "Vector3 \<Rightarrow> Vector3 \<Rightarrow> Vector3 \<Rightarrow> Vector2 \<Rightarrow> Vector3"

definition triangle_pixel ::
  "Barycentric \<Rightarrow> TinyRenderer
     \<Rightarrow> Vector3 \<Rightarrow> Vector3 \<Rightarrow> Vector3 \<Rightarrow> Vector2 \<Rightarrow> Vector2 \<Rightarrow> Vector2 \<Rightarrow> real \<Rightarrow> ImageData
     \<Rightarrow> int \<Rightarrow> int \<Rightarrow> TinyRenderer" where
  "triangle_pixel bary r v0 v1 v2 t0 t1 t2 intensity texture x y =
     (let bc = bary v0 v1 v2 (real_of_int x, real_of_int y);
          bc0 = fst bc; bc1 = fst (snd bc); bc2 = snd (snd bc);
          z = snd (snd v0) * bc0 + snd (snd v1) * bc1 + snd (snd v2) * bc2
      in if bc0 < 0 \<or> bc1 < 0 \<or> bc2 < 0 \<or> num_le z (arr_get (zBuffer r) (y * width r + x))
         then r
         else
           (let u = fst t0 * bc0 + fst t1 * bc1 + fst t2 * bc2;
                v = snd t0 * bc0 + snd t1 * bc1 + snd t2 * bc2;
                color = getPixel texture
                          (u * real_of_int (iwidth texture),
                           (1 - v) * real_of_int (iheight texture));
                rgb = scale [chan color 0, chan color 1, chan color 2] intensity;
                color' = (rgb ! 0, rgb ! 1, rgb ! 2, chan color 3)
            in pixel (r\<lparr>zBuffer := arr_set (zBuffer r) (y * width r + x) (Finite z)\<rparr>)
                 (real_of_int x, real_of_int y) color'))"

text \<open>The inner loop \<^verbatim>\<open>for (let y = ymin; y <= ymax; y++)\<close>.\<close>

function triangle_ys ::
  "Barycentric \<Rightarrow> TinyRenderer
     \<Rightarrow> Vector3 \<Rightarrow> Vector3 \<Rightarrow> Vector3 \<Rightarrow> Vector2 \<Rightarrow> Vector2 \<Rightarrow> Vector2 \<Rightarrow> real \<Rightarrow> ImageData
     \<Rightarrow> int \<Rightarrow> int \<Rightarrow> int \<Rightarrow> TinyRenderer" where
  "triangle_ys bary r v0 v1 v2 t0 t1 t2 intensity texture x y ymax =
     (if y \<le> ymax
      then triangle_ys bary (triangle_pixel bary r v0 v1 v2 t0 t1 t2 intensity texture x y)
             v0 v1 v2 t0 t1 t2 intensity texture x (y + 1) ymax
      else r)"
  by pat_completeness auto
termination
  by (relation "measure (\<lambda>(bary, r, v0, v1, v2, t0, t1, t2, intensity, texture, x, y, ymax).
        nat (ymax + 1 - y))") auto

declare triangle_ys.simps [simp del]

text \<open>The outer loop \<^verbatim>\<open>for (let x = xmin; x <= xmax; x++)\<close>.\<close>

function triangle_xs ::
  "Barycentric \<Rightarrow> TinyRenderer
     \<Rightarrow> Vector3 \<Rightarrow> Vector3 \<Rightarrow> Vector3 \<Rightarrow> Vector2 \<Rightarrow> Vector2 \<Rightarrow> Vector2 \<Rightarrow> real \<Rightarrow> ImageData
     \<Rightarrow> int \<Rightarrow> int \<Rightarrow> int \<Rightarrow> int \<Rightarrow> TinyRenderer" where
  "triangle_xs bary r v0 v1 v2 t0 t1 t2 intensity texture x xmax ymin ymax =
     (if x \<le> xmax
      then triangle_xs bary
             (triangle_ys bary r v0 v1 v2 t0 t1 t2 intensity texture x ymin ymax)
             v0 v1 v2 t0 t1 t2 intensity texture (x + 1) xmax ymin ymax
      else r)"
  by pat_completeness auto
termination
  by (relation "measure (\<lambda>(bary, r, v0, v1, v2, t0, t1, t2, intensity, texture, x, xmax, ymin, ymax).
        nat (xmax + 1 - x))") auto

declare triangle_xs.simps [simp del]

text \<open>\<^verbatim>\<open>Math.min(a, b, c)\<close> and \<^verbatim>\<open>Math.max(a, b, c)\<close>.\<close>

definition min3 :: "real \<Rightarrow> real \<Rightarrow> real \<Rightarrow> real" where
  "min3 a b c = min a (min b c)"

definition max3 :: "real \<Rightarrow> real \<Rightarrow> real \<Rightarrow> real" where
  "max3 a b c = max a (max b c)"

definition triangle_with ::
  "Barycentric \<Rightarrow> TinyRenderer
     \<Rightarrow> Vector3 \<Rightarrow> Vector3 \<Rightarrow> Vector3 \<Rightarrow> Vector2 \<Rightarrow> Vector2 \<Rightarrow> Vector2 \<Rightarrow> real \<Rightarrow> ImageData
     \<Rightarrow> TinyRenderer" where
  "triangle_with bary r v0 v1 v2 t0 t1 t2 intensity texture =
     (let xmin = trunc (min3 (fst v0) (fst v1) (fst v2));
          xmax = trunc (max3 (fst v0) (fst v1) (fst v2));
          ymin = trunc (min3 (fst (snd v0)) (fst (snd v1)) (fst (snd v2)));
          ymax = trunc (max3 (fst (snd v0)) (fst (snd v1)) (fst (snd v2)))
      in triangle_xs bary r v0 v1 v2 t0 t1 t2 intensity texture xmin xmax ymin ymax)"

definition triangle ::
  "TinyRenderer \<Rightarrow> Vector3 \<Rightarrow> Vector3 \<Rightarrow> Vector3 \<Rightarrow> Vector2 \<Rightarrow> Vector2 \<Rightarrow> Vector2 \<Rightarrow> real
     \<Rightarrow> ImageData \<Rightarrow> TinyRenderer" where
  "triangle = triangle_with barycentric"

subsection \<open>The constructor\<close>

text \<open>
  The constructor calls the host platform. \<^verbatim>\<open>createImageData(sw, sh)\<close> of a canvas
  2D context (HTML Standard): an \<^verbatim>\<open>IndexSizeError\<close> when either argument is zero,
  otherwise an image of the absolute magnitudes of \<open>sw\<close> and \<open>sh\<close>, every byte 0
  (transparent black). \<^verbatim>\<open>new Array(n)\<close> (ECMAScript): a \<^verbatim>\<open>RangeError\<close> for a
  negative length, otherwise an array of that length with no element stored.
  \<^verbatim>\<open>fill(v)\<close> stores \<open>v\<close> at every index below the length. Sizes are integers
  below the platform's limits; running out of memory is not modelled.
\<close>

datatype error = IndexSizeError | RangeError

definition createImageData :: "int \<Rightarrow> int \<Rightarrow> error + ImageData" where
  "createImageData sw sh =
     (if sw = 0 \<or> sh = 0 then Inl IndexSizeError
      else Inr \<lparr>iwidth = \<bar>sw\<bar>, iheight = \<bar>sh\<bar>,
                idata = replicate (nat (\<bar>sw\<bar> * \<bar>sh\<bar> * 4)) 0\<rparr>)"

definition new_Array :: "int \<Rightarrow> error + JSArray" where
  "new_Array n =
     (if n < 0 then Inl RangeError else Inr \<lparr>alength = nat n, aelems = (\<lambda>i. None)\<rparr>)"

definition fill :: "JSArray \<Rightarrow> zval \<Rightarrow> JSArray" where
  "fill a v =
     a\<lparr>aelems := (\<lambda>i. if 0 \<le> i \<and> i < int (alength a) then Some v else aelems a i)\<rparr>"

text \<open>The loop \<^verbatim>\<open>for (let i = 0; i < data.length; i += 4)\<close> that fills with black.\<close>

function fill_black :: "nat list \<Rightarrow> nat \<Rightarrow> nat list" where
  "fill_black d i =
     (if i < length d
      then fill_black
             (ta_store (ta_store (ta_store (ta_store d (int i + 0) (Some 0))
                (int i + 1) (Some 0)) (int i + 2) (Some 0)) (int i + 3) (Some 255))
             (i + 4)
      else d)"
  by pat_completeness auto
termination
  by (relation "measure (\<lambda>(d, i). length d - i)") (auto simp: ta_store_def)

declare fill_black.simps [simp del]

definition new_TinyRenderer :: "int \<Rightarrow> int \<Rightarrow> error + TinyRenderer" where
  "new_TinyRenderer w h =
     (case createImageData w h of
        Inl e \<Rightarrow> Inl e
      | Inr img \<Rightarrow>
          (case new_Array (w * h) of
             Inl e \<Rightarrow> Inl e
           | Inr a \<Rightarrow>
               Inr \<lparr>imageData = img\<lparr>idata := fill_black (idata img) 0\<rparr>,
                    zBuffer = fill a NegInfinity\<rparr>))"

subsection \<open>Sequences of draw calls\<close>

datatype call =
  DrawPixel Vector2 Color
| DrawLine Vector2 Vector2 Color
| DrawTriangle Vector3 Vector3 Vector3 Vector2 Vector2 Vector2 real ImageData

fun draw :: "call \<Rightarrow> TinyRenderer \<Rightarrow> TinyRenderer" where
  "draw (DrawPixel v c) r = pixel r v c"
| "draw (DrawLine v0 v1 c) r = line r v0 v1 c"
| "draw (DrawTriangle v0 v1 v2 t0 t1 t2 k tex) r = triangle r v0 v1 v2 t0 t1 t2 k tex"

definition draws :: "call list \<Rightarrow> TinyRenderer \<Rightarrow> TinyRenderer" where
  "draws cs r = fold draw cs r"

section \<open>Observing the buffers\<close>

text \<open>The four bytes that storing a colour into the pixel buffer leaves there.\<close>

fun bytes :: "Color \<Rightarrow> nat \<times> nat \<times> nat \<times> nat" where
  "bytes (cr, cg, cb, ca) =
     (ToUint8Clamp cr, ToUint8Clamp cg, ToUint8Clamp cb, ToUint8Clamp ca)"

text \<open>A colour given by its four bytes.\<close>

definition rgba :: "nat \<Rightarrow> nat \<Rightarrow> nat \<Rightarrow> nat \<Rightarrow> Color" where
  "rgba cr cg cb ca = (Some (real cr), Some (real cg), Some (real cb), Some (real ca))"

text \<open>The four bytes of the pixel with the row-major index \<open>j\<close>.\<close>

definition px :: "TinyRenderer \<Rightarrow> int \<Rightarrow> nat \<times> nat \<times> nat \<times> nat" where
  "px r j = (let d = idata (imageData r); k = nat (j * 4)
             in (d ! k, d ! (k + 1), d ! (k + 2), d ! (k + 3)))"

text \<open>The pixel and the depth entry at \<open>(x, y)\<close>, addressed as the code addresses them.\<close>

definition readPixel :: "TinyRenderer \<Rightarrow> int \<Rightarrow> int \<Rightarrow> nat \<times> nat \<times> nat \<times> nat" where
  "readPixel r x y = px r (y * width r + x)"

definition readDepth :: "TinyRenderer \<Rightarrow> int \<Rightarrow> int \<Rightarrow> zval option" where
  "readDepth r x y = arr_get (zBuffer r) (y * width r + x)"

text \<open>
  A renderer as the constructor leaves its shape: positive sizes and a pixel buffer of
  \<open>W * H * 4\<close> bytes.
\<close>

definition well_formed :: "TinyRenderer \<Rightarrow> bool" where
  "well_formed r = (0 < width r \<and> 0 < height r \<and>
           int (length (idata (imageData r))) = width r * height r * 4)"

definition in_buffer :: "TinyRenderer \<Rightarrow> int \<Rightarrow> int \<Rightarrow> bool" where
  "in_buffer r x y = (0 \<le> x \<and> x < width r \<and> 0 \<le> y \<and> y < height r)"

text \<open>Renderers and colours for the examples.\<close>

definition white :: Color where
  "white = rgba 255 255 255 255"

definition blank :: "int \<Rightarrow> int \<Rightarrow> TinyRenderer" where
  "blank w h =
     \<lparr>imageData = \<lparr>iwidth = w, iheight = h,
                    idata = concat (replicate (nat (w * h)) [0, 0, 0, 255])\<rparr>,
      zBuffer = \<lparr>alength = nat (w * h),
                 aelems = (\<lambda>i. if 0 \<le> i \<and> i < w * h then Some NegInfinity else None)\<rparr>\<rparr>"

section \<open>Describing a triangle draw\<close>

text \<open>
  What the loop body of \<^verbatim>\<open>triangle\<close> computes at the pixel \<open>(x, y)\<close>, named so that
  properties can refer to it: the interpolated depth, the inside test, and the colour it
  commits.
\<close>

definition tri_z :: "Barycentric \<Rightarrow> Vector3 \<Rightarrow> Vector3 \<Rightarrow> Vector3 \<Rightarrow> int \<Rightarrow> int \<Rightarrow> real" where
  "tri_z bary v0 v1 v2 x y =
     (let bc = bary v0 v1 v2 (real_of_int x, real_of_int y)
      in snd (snd v0) * fst bc + snd (snd v1) * fst (snd bc) + snd (snd v2) * snd (snd bc))"

definition tri_inside :: "Barycentric \<Rightarrow> Vector3 \<Rightarrow> Vector3 \<Rightarrow> Vector3 \<Rightarrow> int \<Rightarrow> int \<Rightarrow> bool" where
  "tri_inside bary v0 v1 v2 x y =
     (let bc = bary v0 v1 v2 (real_of_int x, real_of_int y)
      in 0 \<le> fst bc \<and> 0 \<le> fst (snd bc) \<and> 0 \<le> snd (snd bc))"

definition tri_color ::
  "Barycentric \<Rightarrow> Vector3 \<Rightarrow> Vector3 \<Rightarrow> Vector3 \<Rightarrow> Vector2 \<Rightarrow> Vector2 \<Rightarrow> Vector2 \<Rightarrow> real
     \<Rightarrow> ImageData \<Rightarrow> int \<Rightarrow> int \<Rightarrow> Color" where
  "tri_color bary v0 v1 v2 t0 t1 t2 intensity texture x y =
     (let bc = bary v0 v1 v2 (real_of_int x, real_of_int y);
          u = fst t0 * fst bc + fst t1 * fst (snd bc) + fst t2 * snd (snd bc);
          v = snd t0 * fst bc + snd t1 * fst (snd bc) + snd t2 * snd (snd bc);
          color = getPixel texture
                    (u * real_of_int (iwidth texture), (1 - v) * real_of_int (iheight texture))
      in (map_option (\<lambda>c. c * intensity) (chan color 0),
          map_option (\<lambda>c. c * intensity) (chan color 1),
          map_option (\<lambda>c. c * intensity) (chan color 2),
          chan color 3))"

text \<open>The pixel passes both tests of the loop body in the state \<open>r\<close>.\<close>

definition tri_accepts ::
  "Barycentric \<Rightarrow> TinyRenderer \<Rightarrow> Vector3 \<Rightarrow> Vector3 \<Rightarrow> Vector3 \<Rightarrow> int \<Rightarrow> int \<Rightarrow> bool" where
  "tri_accepts bary r v0 v1 v2 x y =
     (tri_inside bary v0 v1 v2 x y \<and>
      \<not> num_le (tri_z bary v0 v1 v2 x y) (readDepth r x y))"

text \<open>The pixels the two loops visit, in the order they visit them.\<close>

definition bbox :: "Vector3 \<Rightarrow> Vector3 \<Rightarrow> Vector3 \<Rightarrow> (int \<times> int) list" where
  "bbox v0 v1 v2 =
     List.product
       [trunc (min3 (fst v0) (fst v1) (fst v2)) .. trunc (max3 (fst v0) (fst v1) (fst v2))]
       [trunc (min3 (fst (snd v0)) (fst (snd v1)) (fst (snd v2))) ..
        trunc (max3 (fst (snd v0)) (fst (snd v1)) (fst (snd v2)))]"

text \<open>
  A point strictly inside, or strictly outside, a triangle of non-zero area, by the signs
  of the three edge functions: strictly inside when all three have the sign of the
  triangle's orientation, strictly outside when one of them has the opposite sign.
\<close>

definition strictly_inside :: "Vector2 \<Rightarrow> Vector2 \<Rightarrow> Vector2 \<Rightarrow> Vector2 \<Rightarrow> bool" where
  "strictly_inside a b c p =
     ((0 < cross2 b c p \<and> 0 < cross2 c a p \<and> 0 < cross2 a b p) \<or>
      (cross2 b c p < 0 \<and> cross2 c a p < 0 \<and> cross2 a b p < 0))"

definition strictly_outside :: "Vector2 \<Rightarrow> Vector2 \<Rightarrow> Vector2 \<Rightarrow> Vector2 \<Rightarrow> bool" where
  "strictly_outside a b c p =
     ((0 < cross2 a b c \<and> (cross2 b c p < 0 \<or> cross2 c a p < 0 \<or> cross2 a b p < 0)) \<or>
      (cross2 a b c < 0 \<and> (0 < cross2 b c p \<or> 0 < cross2 c a p \<or> 0 < cross2 a b p)))"

text \<open>A vertex inside the buffer.\<close>

definition vertex_in_buffer :: "TinyRenderer \<Rightarrow> Vector3 \<Rightarrow> bool" where
  "vertex_in_buffer r v =
     (0 \<le> fst v \<and> fst v < real_of_int (width r) \<and>
      0 \<le> fst (snd v) \<and> fst (snd v) < real_of_int (height r))"

text \<open>A texture of the given positive size, every byte the same.\<close>

definition uniform_texture :: "int \<Rightarrow> int \<Rightarrow> nat \<Rightarrow> ImageData" where
  "uniform_texture w h b = \<lparr>iwidth = w, iheight = h, idata = replicate (nat (w * h * 4)) b\<rparr>"

text \<open>
  Texture coordinates whose sample lands inside the texture: \<open>u\<close> in \<open>[0, 1)\<close> and
  \<open>v\<close> in \<open>(0, 1]\<close>, since the sample is taken at \<open>(u * W, (1 - v) * H)\<close>.
\<close>

definition texcoord_ok :: "Vector2 \<Rightarrow> bool" where
  "texcoord_ok t = (0 \<le> fst t \<and> fst t < 1 \<and> 0 < snd t \<and> snd t \<le> 1)"

text \<open>The row-major index of \<open>(x, y)\<close> lies inside the buffer's \<open>W * H\<close> indices.\<close>

definition index_in_range :: "TinyRenderer \<Rightarrow> int \<Rightarrow> int \<Rightarrow> bool" where
  "index_in_range r x y =
     (0 \<le> y * width r + x \<and> y * width r + x < width r * height r)"

text \<open>
  The depth buffer is a flat array of exactly \<open>W * H\<close> entries: its length is
  \<open>W * H\<close> and it holds an element at the indices \<open>0, ..., W * H - 1\<close> and nowhere else.
\<close>

definition depth_shape :: "TinyRenderer \<Rightarrow> bool" where
  "depth_shape r =
     (int (alength (zBuffer r)) = width r * height r \<and>
      (\<forall>n. (arr_get (zBuffer r) n = None) = (n < 0 \<or> width r * height r \<le> n)))"

text \<open>A draw call all of whose bounding-box pixels have their index inside the buffer.\<close>

fun call_in_range :: "TinyRenderer \<Rightarrow> call \<Rightarrow> bool" where
  "call_in_range r (DrawPixel v c) = True"
| "call_in_range r (DrawLine v0 v1 c) = True"
| "call_in_range r (DrawTriangle v0 v1 v2 t0 t1 t2 k tex) =
     list_all (\<lambda>p. index_in_range r (fst p) (snd p)) (bbox v0 v1 v2)"

text \<open>
  The row-major index of the texel that the loop body samples for the pixel \<open>(x, y)\<close>:
  the sample is taken at \<open>(u * W, (1 - v) * H)\<close> and read at the offset
  \<open>(y' * W + x') * 4\<close> of the truncated coordinates.
\<close>

definition tri_sample ::
  "Barycentric \<Rightarrow> Vector3 \<Rightarrow> Vector3 \<Rightarrow> Vector3 \<Rightarrow> Vector2 \<Rightarrow> Vector2 \<Rightarrow> Vector2
     \<Rightarrow> ImageData \<Rightarrow> int \<Rightarrow> int \<Rightarrow> int" where
  "tri_sample bary v0 v1 v2 t0 t1 t2 texture x y =
     (let bc = bary v0 v1 v2 (real_of_int x, real_of_int y);
          u = fst t0 * fst bc + fst t1 * fst (snd bc) + fst t2 * snd (snd bc);
          v = snd t0 * fst bc + snd t1 * fst (snd bc) + snd t2 * snd (snd bc)
      in trunc ((1 - v) * real_of_int (iheight texture)) * iwidth texture
           + trunc (u * real_of_int (iwidth texture)))"

text \<open>Texture coordinates normalized to \<open>[0, 1]\<close>, as the spec's data model has them.\<close>

definition texcoord_unit :: "Vector2 \<Rightarrow> bool" where
  "texcoord_unit t = (0 \<le> fst t \<and> fst t \<le> 1 \<and> 0 \<le> snd t \<and> snd t \<le> 1)"

section \<open>Properties\<close>

lemma length_ta_store [simp]: "length (ta_store d i v) = length d"
  by (simp add: ta_store_def)

lemma chan_simps:
  "chan (cr, cg, cb, ca) 0 = cr" "chan (cr, cg, cb, ca) (Suc 0) = cg"
  "chan (cr, cg, cb, ca) (Suc (Suc 0)) = cb" "chan (cr, cg, cb, ca) (Suc (Suc (Suc 0))) = ca"
  "chan (cr, cg, cb, ca) 1 = cg" "chan (cr, cg, cb, ca) 2 = cb" "chan (cr, cg, cb, ca) 3 = ca"
  by simp_all

lemma pixel_loop_unroll:
  "pixel_loop d off (cr, cg, cb, ca) 0 =
     ta_store (ta_store (ta_store (ta_store d off cr) (off + 1) cg) (off + 2) cb) (off + 3) ca"
proof -
  have s4: "pixel_loop d off c 4 = d" for d c
    by (subst pixel_loop.simps) (simp add: BYTES_PER_PIXEL_def)
  have s3: "pixel_loop d off c 3 = ta_store d (off + 3) (chan c 3)" for d c
    by (subst pixel_loop.simps) (simp add: BYTES_PER_PIXEL_def s4)
  have s2: "pixel_loop d off c 2 =
              ta_store (ta_store d (off + 2) (chan c 2)) (off + 3) (chan c 3)" for d c
    by (subst pixel_loop.simps) (simp add: BYTES_PER_PIXEL_def s3)
  have s1: "pixel_loop d off c 1 =
              ta_store (ta_store (ta_store d (off + 1) (chan c 1)) (off + 2) (chan c 2))
                (off + 3) (chan c 3)" for d c
    by (subst pixel_loop.simps) (simp add: BYTES_PER_PIXEL_def s2 flip: One_nat_def)
  show ?thesis
    by (subst pixel_loop.simps) (simp add: BYTES_PER_PIXEL_def s1 flip: One_nat_def)
qed

lemma trunc_of_int [simp]: "trunc (real_of_int n) = n"
  by (simp add: trunc_def)

lemma ta_store_nth:
  "k < length d \<Longrightarrow> ta_store d i v ! k = (if i = int k then ToUint8Clamp v else d ! k)"
  by (auto simp: ta_store_def nth_list_update)

lemma pixel_zBuffer [simp]: "zBuffer (pixel r v c) = zBuffer r"
  by (simp add: pixel_def Let_def)

lemma pixel_width [simp]: "width (pixel r v c) = width r"
  by (simp add: pixel_def Let_def width_def)

lemma pixel_height [simp]: "height (pixel r v c) = height r"
  by (simp add: pixel_def Let_def height_def)

lemma pixel_length [simp]:
  "length (idata (imageData (pixel r v c))) = length (idata (imageData r))"
  by (cases c) (simp add: pixel_def Let_def pixel_loop_unroll)

lemma pixel_nth:
  "k < length (idata (imageData r)) \<Longrightarrow>
   idata (imageData (pixel r v (cr, cg, cb, ca))) ! k =
     (if int k = (trunc (snd v) * width r + trunc (fst v)) * 4 then ToUint8Clamp cr
      else if int k = (trunc (snd v) * width r + trunc (fst v)) * 4 + 1 then ToUint8Clamp cg
      else if int k = (trunc (snd v) * width r + trunc (fst v)) * 4 + 2 then ToUint8Clamp cb
      else if int k = (trunc (snd v) * width r + trunc (fst v)) * 4 + 3 then ToUint8Clamp ca
      else idata (imageData r) ! k)"
  by (simp add: pixel_def Let_def pixel_loop_unroll ta_store_nth BYTES_PER_PIXEL_def)

lemma quad_eq:
  fixes a b :: int
  shows "(a * 4 = b * 4) = (a = b)" "(a * 4 = b * 4 + 1) = False"
    "(a * 4 = b * 4 + 2) = False" "(a * 4 = b * 4 + 3) = False"
    "(a * 4 + 1 = b * 4) = False" "(a * 4 + 1 = b * 4 + 1) = (a = b)"
    "(a * 4 + 1 = b * 4 + 2) = False" "(a * 4 + 1 = b * 4 + 3) = False"
    "(a * 4 + 2 = b * 4) = False" "(a * 4 + 2 = b * 4 + 1) = False"
    "(a * 4 + 2 = b * 4 + 2) = (a = b)" "(a * 4 + 2 = b * 4 + 3) = False"
    "(a * 4 + 3 = b * 4) = False" "(a * 4 + 3 = b * 4 + 1) = False"
    "(a * 4 + 3 = b * 4 + 2) = False" "(a * 4 + 3 = b * 4 + 3) = (a = b)"
  by presburger+

lemma px_pixel_tuple:
  assumes "0 \<le> j" and "j * 4 + 3 < int (length (idata (imageData r)))"
  shows "px (pixel r v (cr, cg, cb, ca)) j =
           (if j = trunc (snd v) * width r + trunc (fst v) then bytes (cr, cg, cb, ca)
            else px r j)"
proof -
  let ?k = "nat (j * 4)"
  let ?i = "trunc (snd v) * width r + trunc (fst v)"
  let ?D = "idata (imageData r)"
  let ?D' = "idata (imageData (pixel r v (cr, cg, cb, ca)))"
  have lt: "?k < length ?D" "?k + 1 < length ?D" "?k + 2 < length ?D" "?k + 3 < length ?D"
    using assms by linarith+
  have k: "int ?k = j * 4" "int (?k + 1) = j * 4 + 1" "int (?k + 2) = j * 4 + 2"
    "int (?k + 3) = j * 4 + 3"
    using assms(1) by linarith+
  have n0: "?D' ! ?k = (if j = ?i then ToUint8Clamp cr else ?D ! ?k)"
    by (simp only: pixel_nth [OF lt(1)] k quad_eq if_False)
  have n1: "?D' ! (?k + 1) = (if j = ?i then ToUint8Clamp cg else ?D ! (?k + 1))"
    by (simp only: pixel_nth [OF lt(2)] k quad_eq if_False)
  have n2: "?D' ! (?k + 2) = (if j = ?i then ToUint8Clamp cb else ?D ! (?k + 2))"
    by (simp only: pixel_nth [OF lt(3)] k quad_eq if_False)
  have n3: "?D' ! (?k + 3) = (if j = ?i then ToUint8Clamp ca else ?D ! (?k + 3))"
    by (simp only: pixel_nth [OF lt(4)] k quad_eq if_False)
  show ?thesis
  proof (cases "j = ?i")
    case True
    have "px (pixel r v (cr, cg, cb, ca)) j = bytes (cr, cg, cb, ca)"
      unfolding px_def Let_def n0 n1 n2 n3 bytes.simps if_P [OF True] by (rule refl)
    then show ?thesis unfolding if_P [OF True] .
  next
    case False
    have "px (pixel r v (cr, cg, cb, ca)) j = px r j"
      unfolding px_def Let_def n0 n1 n2 n3 if_not_P [OF False] by (rule refl)
    then show ?thesis unfolding if_not_P [OF False] .
  qed
qed

lemma px_pixel:
  assumes "0 \<le> j" and "j * 4 + 3 < int (length (idata (imageData r)))"
  shows "px (pixel r v c) j =
     (if j = trunc (snd v) * width r + trunc (fst v) then bytes c else px r j)"
proof -
  obtain cr cg cb ca where c: "c = (cr, cg, cb, ca)"
    using prod_cases4 by blast
  show ?thesis
    unfolding c by (rule px_pixel_tuple [OF assms])
qed

lemma ToUint8Clamp_byte: "n \<le> 255 \<Longrightarrow> ToUint8Clamp (Some (real n)) = n"
  by (simp add: ToUint8Clamp_def)

lemma bytes_rgba:
  "cr \<le> 255 \<Longrightarrow> cg \<le> 255 \<Longrightarrow> cb \<le> 255 \<Longrightarrow> ca \<le> 255 \<Longrightarrow>
   bytes (rgba cr cg cb ca) = (cr, cg, cb, ca)"
  by (simp add: rgba_def ToUint8Clamp_byte)

lemma idx_range:
  assumes "well_formed r" and "in_buffer r i j"
  shows "0 \<le> j * width r + i" and "(j * width r + i) * 4 + 3 < int (length (idata (imageData r)))"
proof -
  have w: "0 < width r" and i: "0 \<le> i" "i < width r" and j: "0 \<le> j" "j < height r"
    using assms by (simp_all add: well_formed_def in_buffer_def)
  have len: "int (length (idata (imageData r))) = width r * height r * 4"
    using assms(1) by (simp add: well_formed_def)
  show "0 \<le> j * width r + i" using w i j by simp
  have "j + 1 \<le> height r" using j by simp
  then have "(j + 1) * width r \<le> height r * width r"
    using w by (intro mult_right_mono) simp_all
  then have "j * width r + i < height r * width r"
    using i by (simp add: algebra_simps)
  then show "(j * width r + i) * 4 + 3 < int (length (idata (imageData r)))"
    unfolding len by (simp add: algebra_simps)
qed

lemma idx_eq_iff:
  fixes w :: int
  assumes "0 \<le> i" "i < w" "0 \<le> i'" "i' < w"
  shows "(j * w + i = j' * w + i') = (i = i' \<and> j = j')"
proof
  assume e: "j * w + i = j' * w + i'"
  have "(j * w + i) mod w = i" "(j' * w + i') mod w = i'"
    using assms by simp_all
  with e have ii: "i = i'" by simp
  have "(j * w + i) div w = j" "(j' * w + i') div w = j'"
    using assms by simp_all
  with e have "j = j'" by simp
  with ii show "i = i' \<and> j = j'" by simp
qed simp

lemma readPixel_pixel:
  assumes "well_formed r" and "in_buffer r i j" and "in_buffer r (trunc (fst v)) (trunc (snd v))"
  shows "readPixel (pixel r v c) i j =
           (if i = trunc (fst v) \<and> j = trunc (snd v) then bytes c else readPixel r i j)"
proof -
  have e: "(j * width r + i = trunc (snd v) * width r + trunc (fst v)) =
           (i = trunc (fst v) \<and> j = trunc (snd v))"
    using assms(2,3) by (intro idx_eq_iff) (simp_all add: in_buffer_def)
  show ?thesis
    unfolding readPixel_def pixel_width
    by (simp only: px_pixel [OF idx_range [OF assms(1,2)]] e)
qed

lemma well_formed_pixel [simp]: "well_formed (pixel r v c) = well_formed r"
  by (simp add: well_formed_def)

lemma in_buffer_pixel [simp]: "in_buffer (pixel r v c) i j = in_buffer r i j"
  by (simp add: in_buffer_def)

lemma fold_pixel_frame:
  "zBuffer (fold (\<lambda>p s. pixel s p c) ps r) = zBuffer r \<and>
   width (fold (\<lambda>p s. pixel s p c) ps r) = width r \<and>
   height (fold (\<lambda>p s. pixel s p c) ps r) = height r \<and>
   well_formed (fold (\<lambda>p s. pixel s p c) ps r) = well_formed r"
  by (induction ps arbitrary: r) simp_all

lemma readPixel_fold_pixel:
  assumes "well_formed r" and "in_buffer r i j"
    and "\<forall>p \<in> set ps. in_buffer r (fst p) (snd p)"
  shows "readPixel (fold (\<lambda>p s. pixel s (real_of_int (fst p), real_of_int (snd p)) c) ps r) i j =
           (if (i, j) \<in> set ps then bytes c else readPixel r i j)"
  using assms
proof (induction ps arbitrary: r)
  case Nil
  then show ?case by simp
next
  case (Cons p ps)
  let ?r = "pixel r (real_of_int (fst p), real_of_int (snd p)) c"
  have p: "in_buffer r (fst p) (snd p)" using Cons.prems(3) by simp
  have step: "readPixel ?r i j = (if i = fst p \<and> j = snd p then bytes c else readPixel r i j)"
    using readPixel_pixel [OF Cons.prems(1,2), of "(real_of_int (fst p), real_of_int (snd p))" c] p
    by simp
  have "readPixel (fold (\<lambda>p s. pixel s (real_of_int (fst p), real_of_int (snd p)) c) ps ?r) i j =
          (if (i, j) \<in> set ps then bytes c else readPixel ?r i j)"
    using Cons.prems by (intro Cons.IH) simp_all
  then show ?case
    using step by (cases p) auto
qed


lemma well_formed_blank: "0 < w \<Longrightarrow> 0 < h \<Longrightarrow> well_formed (blank w h)"
  by (simp add: well_formed_def blank_def width_def height_def length_concat sum_list_replicate
      nat_mult_distrib)

lemma width_blank [simp]: "width (blank w h) = w"
  by (simp add: blank_def width_def)

lemma height_blank [simp]: "height (blank w h) = h"
  by (simp add: blank_def height_def)

lemma bytes_white: "bytes white = (255, 255, 255, 255)"
  by (simp add: white_def bytes_rgba)

lemma fold_pixel_ints:
  "fold (\<lambda>p s. pixel s p c) (map (\<lambda>p. (real_of_int (fst p), real_of_int (snd p))) ps) r =
   fold (\<lambda>p s. pixel s (real_of_int (fst p), real_of_int (snd p)) c) ps r"
  by (simp add: fold_map comp_def)

text \<open>
  C6. \<^verbatim>\<open>line\<close> from \<open>(0, 0)\<close> to \<open>(5, 0)\<close> is exactly the six pixel writes at
  \<open>(0, 0)\<close>, ..., \<open>(5, 0)\<close> with the given colour, in this order, and it leaves the
  depth buffer alone. On a buffer that holds these six pixels, each of them then has the
  bytes of that colour and every other pixel of the buffer is as before.
\<close>

theorem line_horizontal:
  "line r (0, 0) (5, 0) c =
     fold (\<lambda>p s. pixel s p c) [(0, 0), (1, 0), (2, 0), (3, 0), (4, 0), (5, 0)] r
   \<and> zBuffer (line r (0, 0) (5, 0) c) = zBuffer r
   \<and> (well_formed r \<and> 6 \<le> width r \<and> in_buffer r i j \<longrightarrow>
        readPixel (line r (0, 0) (5, 0) c) i j =
          (if j = 0 \<and> i \<le> 5 then bytes c else readPixel r i j))"
proof (intro conjI impI)
  let ?ps = "[(0, 0), (1, 0), (2, 0), (3, 0), (4, 0), (5, 0)] :: (int \<times> int) list"
  show plots: "line r (0, 0) (5, 0) c =
      fold (\<lambda>p s. pixel s p c) [(0, 0), (1, 0), (2, 0), (3, 0), (4, 0), (5, 0)] r"
    by (simp add: line_def line_loop.simps)
  show "zBuffer (line r (0, 0) (5, 0) c) = zBuffer r"
    unfolding plots by (simp add: fold_pixel_frame)
  assume a: "well_formed r \<and> 6 \<le> width r \<and> in_buffer r i j"
  then have w: "well_formed r" and b: "in_buffer r i j" by simp_all
  have ints: "line r (0, 0) (5, 0) c =
      fold (\<lambda>p s. pixel s (real_of_int (fst p), real_of_int (snd p)) c) ?ps r"
    unfolding plots by simp
  have inb: "\<forall>p \<in> set ?ps. in_buffer r (fst p) (snd p)"
    using a by (simp add: in_buffer_def well_formed_def)
  have mem: "((i, j) \<in> set ?ps) = (j = 0 \<and> i \<le> 5)"
    using b by (auto simp: in_buffer_def)
  show "readPixel (line r (0, 0) (5, 0) c) i j =
          (if j = 0 \<and> i \<le> 5 then bytes c else readPixel r i j)"
    unfolding ints readPixel_fold_pixel [OF w b inb] mem ..
qed

theorem line_horizontal_witness:
  "well_formed (blank 8 2) \<and> (6::int) \<le> width (blank 8 2) \<and> in_buffer (blank 8 2) 5 0
   \<and> in_buffer (blank 8 2) 6 0
   \<and> readPixel (line (blank 8 2) (0, 0) (5, 0) white) 5 0 = (255, 255, 255, 255)
   \<and> readPixel (line (blank 8 2) (0, 0) (5, 0) white) 6 0 = readPixel (blank 8 2) 6 0"
proof -
  have w: "well_formed (blank 8 2)" by (simp add: well_formed_blank)
  have s: "6 \<le> width (blank 8 2)" by simp
  have a: "in_buffer (blank 8 2) 5 0" and b: "in_buffer (blank 8 2) 6 0"
    by (simp_all add: in_buffer_def)
  have t5: "readPixel (line (blank 8 2) (0, 0) (5, 0) white) 5 0 = (255, 255, 255, 255)"
    using line_horizontal [of "blank 8 2" white 5 0, THEN conjunct2, THEN conjunct2, THEN mp,
        OF conjI [OF w conjI [OF s a]]]
    by (simp add: bytes_white)
  have t6: "readPixel (line (blank 8 2) (0, 0) (5, 0) white) 6 0 = readPixel (blank 8 2) 6 0"
    using line_horizontal [of "blank 8 2" white 6 0, THEN conjunct2, THEN conjunct2, THEN mp,
        OF conjI [OF w conjI [OF s b]]]
    by simp
  show ?thesis
    using w s a b t5 t6 by (simp only: simp_thms)
qed


text \<open>
  C7. \<^verbatim>\<open>line\<close> from \<open>(0, 0)\<close> to \<open>(3, 10)\<close> takes the steep branch: the loop runs
  transposed, over the eleven values 0..10 of the source's \<open>y\<close>. It is exactly eleven
  pixel writes, one for each integer \<open>y\<close> from 0 to 10, and it leaves the depth buffer
  alone. On a buffer that holds these pixels, each of them then has the bytes of the
  colour and every other pixel of the buffer is as before.
\<close>

theorem line_steep:
  "line r (0, 0) (3, 10) c = line_loop r True c 6 10 3 10 0 0 0
   \<and> line r (0, 0) (3, 10) c =
       fold (\<lambda>p s. pixel s p c)
         [(0, 0), (0, 1), (1, 2), (1, 3), (1, 4), (1, 5), (2, 6), (2, 7), (2, 8),
          (3, 9), (3, 10)] r
   \<and> zBuffer (line r (0, 0) (3, 10) c) = zBuffer r
   \<and> (well_formed r \<and> 4 \<le> width r \<and> 11 \<le> height r \<and> in_buffer r i j \<longrightarrow>
        readPixel (line r (0, 0) (3, 10) c) i j =
          (if (i, j) \<in> {(0, 0), (0, 1), (1, 2), (1, 3), (1, 4), (1, 5), (2, 6), (2, 7),
                         (2, 8), (3, 9), (3, 10)}
           then bytes c else readPixel r i j))"
proof (intro conjI impI)
  let ?ps = "[(0, 0), (0, 1), (1, 2), (1, 3), (1, 4), (1, 5), (2, 6), (2, 7), (2, 8),
              (3, 9), (3, 10)] :: (int \<times> int) list"
  show "line r (0, 0) (3, 10) c = line_loop r True c 6 10 3 10 0 0 0"
    by (simp add: line_def)
  show plots: "line r (0, 0) (3, 10) c =
      fold (\<lambda>p s. pixel s p c)
        [(0, 0), (0, 1), (1, 2), (1, 3), (1, 4), (1, 5), (2, 6), (2, 7), (2, 8),
         (3, 9), (3, 10)] r"
    by (simp add: line_def line_loop.simps)
  show "zBuffer (line r (0, 0) (3, 10) c) = zBuffer r"
    unfolding plots by (simp add: fold_pixel_frame)
  assume a: "well_formed r \<and> 4 \<le> width r \<and> 11 \<le> height r \<and> in_buffer r i j"
  then have w: "well_formed r" and b: "in_buffer r i j" by simp_all
  have ints: "line r (0, 0) (3, 10) c =
      fold (\<lambda>p s. pixel s (real_of_int (fst p), real_of_int (snd p)) c) ?ps r"
    unfolding plots by simp
  have inb: "\<forall>p \<in> set ?ps. in_buffer r (fst p) (snd p)"
    using a by (simp add: in_buffer_def)
  have "readPixel (line r (0, 0) (3, 10) c) i j =
          (if (i, j) \<in> set ?ps then bytes c else readPixel r i j)"
    unfolding ints by (rule readPixel_fold_pixel [OF w b inb])
  then show "readPixel (line r (0, 0) (3, 10) c) i j =
          (if (i, j) \<in> {(0, 0), (0, 1), (1, 2), (1, 3), (1, 4), (1, 5), (2, 6), (2, 7),
                         (2, 8), (3, 9), (3, 10)}
           then bytes c else readPixel r i j)"
    by simp
qed

theorem line_steep_witness:
  "well_formed (blank 4 11) \<and> (4::int) \<le> width (blank 4 11) \<and> (11::int) \<le> height (blank 4 11)
   \<and> in_buffer (blank 4 11) 1 4 \<and> in_buffer (blank 4 11) 2 4
   \<and> readPixel (line (blank 4 11) (0, 0) (3, 10) white) 1 4 = (255, 255, 255, 255)
   \<and> readPixel (line (blank 4 11) (0, 0) (3, 10) white) 2 4 = readPixel (blank 4 11) 2 4"
proof -
  have w: "well_formed (blank 4 11)" by (simp add: well_formed_blank)
  have s: "4 \<le> width (blank 4 11)" and h: "11 \<le> height (blank 4 11)" by simp_all
  have a: "in_buffer (blank 4 11) 1 4" and b: "in_buffer (blank 4 11) 2 4"
    by (simp_all add: in_buffer_def)
  have t1: "readPixel (line (blank 4 11) (0, 0) (3, 10) white) 1 4 = (255, 255, 255, 255)"
    using line_steep [of "blank 4 11" white 1 4, THEN conjunct2, THEN conjunct2, THEN conjunct2,
        THEN mp, OF conjI [OF w conjI [OF s conjI [OF h a]]]]
    by (simp add: bytes_white)
  have t2: "readPixel (line (blank 4 11) (0, 0) (3, 10) white) 2 4 = readPixel (blank 4 11) 2 4"
    using line_steep [of "blank 4 11" white 2 4, THEN conjunct2, THEN conjunct2, THEN conjunct2,
        THEN mp, OF conjI [OF w conjI [OF s conjI [OF h b]]]]
    by simp
  show ?thesis
    using w s h a b t1 t2 by (simp only: simp_thms)
qed

text \<open>
  C10. \<^verbatim>\<open>pixel\<close> truncates both coordinates toward zero before it computes the
  offset: a write at \<open>(x, y)\<close> is the write at \<open>(trunc x, trunc y)\<close>. For coordinates
  inside the buffer the pixel written is the one at \<open>(\<lfloor>x\<rfloor>, \<lfloor>y\<rfloor>)\<close>, whatever the
  fractional parts, and no other pixel of the buffer changes: nothing is rounded to the
  nearest integer.
\<close>

theorem pixel_truncates:
  "pixel r (x, y) c = pixel r (real_of_int (trunc x), real_of_int (trunc y)) c
   \<and> (well_formed r \<and> 0 \<le> x \<and> x < real_of_int (width r)
        \<and> 0 \<le> y \<and> y < real_of_int (height r) \<and> in_buffer r i j \<longrightarrow>
        readPixel (pixel r (x, y) c) i j =
          (if i = \<lfloor>x\<rfloor> \<and> j = \<lfloor>y\<rfloor> then bytes c else readPixel r i j))"
proof (intro conjI impI)
  show "pixel r (x, y) c = pixel r (real_of_int (trunc x), real_of_int (trunc y)) c"
    by (simp add: pixel_def)
  assume a: "well_formed r \<and> 0 \<le> x \<and> x < real_of_int (width r)
        \<and> 0 \<le> y \<and> y < real_of_int (height r) \<and> in_buffer r i j"
  then have w: "well_formed r" and b: "in_buffer r i j" by simp_all
  have t: "trunc x = \<lfloor>x\<rfloor>" "trunc y = \<lfloor>y\<rfloor>"
    using a by (simp_all add: trunc_def)
  have "\<lfloor>x\<rfloor> < width r" "\<lfloor>y\<rfloor> < height r" "0 \<le> \<lfloor>x\<rfloor>" "0 \<le> \<lfloor>y\<rfloor>"
    using a by (simp_all add: floor_less_iff)
  then have inb: "in_buffer r (trunc (fst (x, y))) (trunc (snd (x, y)))"
    by (simp add: in_buffer_def t)
  show "readPixel (pixel r (x, y) c) i j =
          (if i = \<lfloor>x\<rfloor> \<and> j = \<lfloor>y\<rfloor> then bytes c else readPixel r i j)"
    using readPixel_pixel [OF w b inb, of c] by (simp add: t)
qed

theorem pixel_truncates_witness:
  "well_formed (blank 2 2) \<and> in_buffer (blank 2 2) 0 0 \<and> in_buffer (blank 2 2) 1 1
   \<and> pixel (blank 2 2) (3 / 5, 3 / 5) white = pixel (blank 2 2) (0, 0) white
   \<and> readPixel (pixel (blank 2 2) (3 / 5, 3 / 5) white) 0 0 = (255, 255, 255, 255)
   \<and> readPixel (pixel (blank 2 2) (3 / 5, 3 / 5) white) 1 1 = readPixel (blank 2 2) 1 1"
proof -
  have w: "well_formed (blank 2 2)" by (simp add: well_formed_blank)
  have a: "in_buffer (blank 2 2) 0 0" and b: "in_buffer (blank 2 2) 1 1"
    by (simp_all add: in_buffer_def)
  have x: "(0::real) \<le> 3 / 5" "(3 / 5 :: real) < real_of_int (width (blank 2 2))"
    "(3 / 5 :: real) < real_of_int (height (blank 2 2))" by simp_all
  note t0 = pixel_truncates [of "blank 2 2" "3 / 5" "3 / 5" white 0 0]
  note t1 = pixel_truncates [of "blank 2 2" "3 / 5" "3 / 5" white 1 1]
  have e: "pixel (blank 2 2) (3 / 5, 3 / 5) white = pixel (blank 2 2) (0, 0) white"
    using t0 [THEN conjunct1] by (simp add: trunc_def)
  have r0: "readPixel (pixel (blank 2 2) (3 / 5, 3 / 5) white) 0 0 = (255, 255, 255, 255)"
    using t0 [THEN conjunct2] w a x by (simp add: bytes_white)
  have r1: "readPixel (pixel (blank 2 2) (3 / 5, 3 / 5) white) 1 1 = readPixel (blank 2 2) 1 1"
    using t1 [THEN conjunct2] w b x by simp
  show ?thesis
    using w a b e r0 r1 by (simp only: simp_thms)
qed


lemma ToUint8Clamp_0 [simp]: "ToUint8Clamp (Some 0) = 0"
  by (simp add: ToUint8Clamp_def)

lemma ToUint8Clamp_255 [simp]: "ToUint8Clamp (Some 255) = 255"
  by (simp add: ToUint8Clamp_def)

lemma fill_black_done: "fill_black xs (length xs) = xs"
  by (subst fill_black.simps) simp

lemma fill_black_step:
  "fill_black (xs @ a # b # c # d # ys) (length xs) =
   fill_black (xs @ 0 # 0 # 0 # 255 # ys) (length xs + 4)"
proof -
  have s0: "ta_store (xs @ a # b # c # d # ys) (int (length xs)) (Some 0) =
            xs @ 0 # b # c # d # ys"
    by (simp add: ta_store_def)
  have s1: "ta_store (xs @ 0 # b # c # d # ys) (int (length xs) + 1) (Some 0) =
            xs @ 0 # 0 # c # d # ys"
    by (simp add: ta_store_def list_update_append nat_add_distrib)
  have s2: "ta_store (xs @ 0 # 0 # c # d # ys) (int (length xs) + 2) (Some 0) =
            xs @ 0 # 0 # 0 # d # ys"
    by (simp add: ta_store_def list_update_append nat_add_distrib numeral_2_eq_2)
  have s3: "ta_store (xs @ 0 # 0 # 0 # d # ys) (int (length xs) + 3) (Some 255) =
            xs @ 0 # 0 # 0 # 255 # ys"
    by (simp add: ta_store_def list_update_append nat_add_distrib numeral_3_eq_3)
  show ?thesis
    by (subst fill_black.simps) (simp add: s0 s1 s2 s3)
qed

lemma fill_black_append:
  "length ys = 4 * m \<Longrightarrow>
   fill_black (xs @ ys) (length xs) = xs @ concat (replicate m [0, 0, 0, 255])"
proof (induction m arbitrary: xs ys)
  case 0
  then show ?case by (simp add: fill_black_done)
next
  case (Suc m)
  then obtain a b c d ys' where ys: "ys = a # b # c # d # ys'" and l: "length ys' = 4 * m"
    by (cases ys; cases "tl ys"; cases "tl (tl ys)"; cases "tl (tl (tl ys))") auto
  have "fill_black (xs @ ys) (length xs) =
          fill_black ((xs @ [0, 0, 0, 255]) @ ys') (length (xs @ [0, 0, 0, 255]))"
  proof -
    have n: "length (xs @ [0, 0, 0, 255]) = length xs + 4" by simp
    have a: "(xs @ [0, 0, 0, 255]) @ ys' = xs @ 0 # 0 # 0 # 255 # ys'" by simp
    show ?thesis unfolding ys n a by (rule fill_black_step)
  qed
  also have "\<dots> = (xs @ [0, 0, 0, 255]) @ concat (replicate m [0, 0, 0, 255])"
    by (rule Suc.IH [OF l])
  finally show ?case by simp
qed

lemma fill_black_replicate:
  "fill_black (replicate (4 * m) 0) 0 = concat (replicate m [0, 0, 0, 255])"
  using fill_black_append [of "replicate (4 * m) 0" m "[]"] by simp


lemma nth_concat_replicate4:
  "k < n \<Longrightarrow>
   concat (replicate n [a, b, c, d]) ! (4 * k) = a \<and>
   concat (replicate n [a, b, c, d]) ! (4 * k + 1) = b \<and>
   concat (replicate n [a, b, c, d]) ! (4 * k + 2) = c \<and>
   concat (replicate n [a, b, c, d]) ! (4 * k + 3) = d"
proof (induction n arbitrary: k)
  case 0
  then show ?case by simp
next
  case (Suc n)
  show ?case
  proof (cases k)
    case 0
    then show ?thesis by (simp add: numeral_2_eq_2 numeral_3_eq_3)
  next
    case (Suc k')
    then have "k' < n" using Suc.prems by simp
    from Suc.IH [OF this] show ?thesis
      unfolding Suc by (simp add: numeral_2_eq_2 numeral_3_eq_3)
  qed
qed

lemma px_blank:
  assumes "0 \<le> k" and "k < w * h"
  shows "px (blank w h) k = (0, 0, 0, 255)"
proof -
  have n: "nat (k * 4) = 4 * nat k" using assms(1) by (simp add: nat_mult_distrib)
  have lt: "nat k < nat (w * h)" using assms by simp
  show ?thesis
    unfolding px_def Let_def n
    using nth_concat_replicate4 [OF lt, of 0 0 0 255]
    by (simp add: blank_def)
qed

lemma readPixel_blank:
  assumes "0 < w" and "0 < h" and "in_buffer (blank w h) x y"
  shows "readPixel (blank w h) x y = (0, 0, 0, 255)"
proof -
  have wfb: "well_formed (blank w h)"
    using assms(1,2) by (rule well_formed_blank)
  have len: "int (length (idata (imageData (blank w h)))) = w * h * 4"
    using wfb by (simp add: well_formed_def)
  have r: "0 \<le> y * w + x" "(y * w + x) * 4 + 3 < w * h * 4"
    using idx_range [OF wfb assms(3)] len by simp_all
  then have "y * w + x < w * h" by simp
  with r(1) show ?thesis
    unfolding readPixel_def width_blank by (rule px_blank)
qed

lemma readDepth_blank:
  assumes "0 < w" and "0 < h" and "in_buffer (blank w h) x y"
  shows "readDepth (blank w h) x y = Some NegInfinity"
proof -
  have wfb: "well_formed (blank w h)"
    using assms(1,2) by (rule well_formed_blank)
  have len: "int (length (idata (imageData (blank w h)))) = w * h * 4"
    using wfb by (simp add: well_formed_def)
  have r: "0 \<le> y * w + x" "(y * w + x) * 4 + 3 < w * h * 4"
    using idx_range [OF wfb assms(3)] len by simp_all
  then have "y * w + x < w * h" by simp
  with r(1) show ?thesis
    by (simp add: readDepth_def arr_get_def blank_def width_def)
qed

lemma new_TinyRenderer_ok:
  assumes "0 < w * h"
  shows "new_TinyRenderer w h = Inr (blank \<bar>w\<bar> \<bar>h\<bar>)"
proof -
  have nz: "w \<noteq> 0" "h \<noteq> 0" using assms by auto
  have p: "\<bar>w\<bar> * \<bar>h\<bar> = w * h"
    using assms by (simp flip: abs_mult)
  have n: "nat (w * h * 4) = 4 * nat (w * h)"
    using assms by (simp add: nat_mult_distrib)
  show ?thesis
    using assms nz
    by (simp add: new_TinyRenderer_def createImageData_def new_Array_def fill_def blank_def
        p n fill_black_replicate cong: if_cong)
qed

lemma new_TinyRenderer_zero:
  "w = 0 \<or> h = 0 \<Longrightarrow> new_TinyRenderer w h = Inl IndexSizeError"
  by (auto simp: new_TinyRenderer_def createImageData_def)

lemma new_TinyRenderer_negative:
  assumes "w * h < 0"
  shows "new_TinyRenderer w h = Inl RangeError"
proof -
  have nz: "w \<noteq> 0" "h \<noteq> 0" using assms by auto
  show ?thesis
    using assms nz by (simp add: new_TinyRenderer_def createImageData_def new_Array_def)
qed






lemma triangle_pixel_alt:
  "triangle_pixel bary r v0 v1 v2 t0 t1 t2 intensity texture x y =
     (if tri_accepts bary r v0 v1 v2 x y
      then pixel (r\<lparr>zBuffer := arr_set (zBuffer r) (y * width r + x)
                     (Finite (tri_z bary v0 v1 v2 x y))\<rparr>)
             (real_of_int x, real_of_int y)
             (tri_color bary v0 v1 v2 t0 t1 t2 intensity texture x y)
      else r)"
  by (simp add: triangle_pixel_def tri_accepts_def tri_inside_def tri_z_def tri_color_def
      readDepth_def scale_def Let_def not_less)

lemma triangle_ys_fold:
  "triangle_ys bary r v0 v1 v2 t0 t1 t2 k tex x y ymax =
     fold (\<lambda>y s. triangle_pixel bary s v0 v1 v2 t0 t1 t2 k tex x y) [y..ymax] r"
proof (induction bary r v0 v1 v2 t0 t1 t2 k tex x y ymax rule: triangle_ys.induct)
  case (1 bary r v0 v1 v2 t0 t1 t2 k tex x y ymax)
  show ?case
  proof (cases "y \<le> ymax")
    case True
    have "[y..ymax] = y # [y + 1..ymax]" using True by (simp add: upto_rec1)
    then show ?thesis
      using True "1.IH" by (subst triangle_ys.simps) simp
  next
    case False
    then show ?thesis by (subst triangle_ys.simps) simp
  qed
qed

lemma triangle_xs_fold:
  "triangle_xs bary r v0 v1 v2 t0 t1 t2 k tex x xmax ymin ymax =
     fold (\<lambda>x s. fold (\<lambda>y s. triangle_pixel bary s v0 v1 v2 t0 t1 t2 k tex x y) [ymin..ymax] s)
       [x..xmax] r"
proof (induction bary r v0 v1 v2 t0 t1 t2 k tex x xmax ymin ymax rule: triangle_xs.induct)
  case (1 bary r v0 v1 v2 t0 t1 t2 k tex x xmax ymin ymax)
  show ?case
  proof (cases "x \<le> xmax")
    case True
    have "[x..xmax] = x # [x + 1..xmax]" using True by (simp add: upto_rec1)
    then show ?thesis
      using True "1.IH" by (subst triangle_xs.simps) (simp add: triangle_ys_fold)
  next
    case False
    then show ?thesis by (subst triangle_xs.simps) simp
  qed
qed

lemma fold_product:
  "fold f (List.product xs ys) s = fold (\<lambda>x s. fold (\<lambda>y s. f (x, y) s) ys s) xs s"
  by (induction xs arbitrary: s) (simp_all add: fold_map comp_def)

lemma triangle_with_fold:
  "triangle_with bary r v0 v1 v2 t0 t1 t2 k tex =
     fold (\<lambda>p s. triangle_pixel bary s v0 v1 v2 t0 t1 t2 k tex (fst p) (snd p)) (bbox v0 v1 v2) r"
  by (simp add: triangle_with_def bbox_def triangle_xs_fold fold_product Let_def)


lemma arr_get_set [simp]:
  "arr_get (arr_set a i v) j = (if j = i then Some v else arr_get a j)"
  by (simp add: arr_get_def arr_set_def)

lemma num_le_iff: "num_le z e = (\<exists>d. e = Some (Finite d) \<and> z \<le> d)"
proof (cases e)
  case None
  then show ?thesis by simp
next
  case (Some v)
  then show ?thesis by (cases v) simp_all
qed

lemma triangle_pixel_width [simp]:
  "width (triangle_pixel bary r v0 v1 v2 t0 t1 t2 k tex x y) = width r"
  by (simp add: triangle_pixel_alt) (simp add: width_def)

lemma triangle_pixel_height [simp]:
  "height (triangle_pixel bary r v0 v1 v2 t0 t1 t2 k tex x y) = height r"
  by (simp add: triangle_pixel_alt) (simp add: height_def)

lemma triangle_pixel_length [simp]:
  "length (idata (imageData (triangle_pixel bary r v0 v1 v2 t0 t1 t2 k tex x y))) =
   length (idata (imageData r))"
  by (simp add: triangle_pixel_alt)

lemma well_formed_triangle_pixel [simp]:
  "well_formed (triangle_pixel bary r v0 v1 v2 t0 t1 t2 k tex x y) = well_formed r"
  by (simp add: well_formed_def)

lemma in_buffer_triangle_pixel [simp]:
  "in_buffer (triangle_pixel bary r v0 v1 v2 t0 t1 t2 k tex x y) i j = in_buffer r i j"
  by (simp add: in_buffer_def)

lemma zBuffer_triangle_pixel:
  "arr_get (zBuffer (triangle_pixel bary r v0 v1 v2 t0 t1 t2 k tex x y)) n =
     (if tri_accepts bary r v0 v1 v2 x y \<and> n = y * width r + x
      then Some (Finite (tri_z bary v0 v1 v2 x y))
      else arr_get (zBuffer r) n)"
  by (simp add: triangle_pixel_alt)

lemma triangle_pixel_rejected:
  "\<not> tri_accepts bary r v0 v1 v2 x y \<Longrightarrow>
   triangle_pixel bary r v0 v1 v2 t0 t1 t2 k tex x y = r"
  by (simp add: triangle_pixel_alt)

text \<open>Once a pixel is rejected it stays rejected: a step only raises depth entries.\<close>

lemma rejected_after_step:
  assumes "(x', y') = (x, y) \<or> \<not> tri_accepts bary r v0 v1 v2 x' y'"
  shows "\<not> tri_accepts bary (triangle_pixel bary r v0 v1 v2 t0 t1 t2 k tex x y) v0 v1 v2 x' y'"
proof (cases "tri_inside bary v0 v1 v2 x' y'")
  case False
  then show ?thesis by (simp add: tri_accepts_def)
next
  case inside: True
  let ?s = "triangle_pixel bary r v0 v1 v2 t0 t1 t2 k tex x y"
  let ?n' = "y' * width r + x'"
  have goal: "num_le (tri_z bary v0 v1 v2 x' y') (arr_get (zBuffer ?s) ?n')"
  proof (cases "tri_accepts bary r v0 v1 v2 x y \<and> ?n' = y * width r + x")
    case hit: True
    show ?thesis
    proof (cases "(x', y') = (x, y)")
      case True
      then show ?thesis using hit by (simp add: zBuffer_triangle_pixel)
    next
      case False
      with assms have rej: "\<not> tri_accepts bary r v0 v1 v2 x' y'" by blast
      with inside have le: "num_le (tri_z bary v0 v1 v2 x' y') (arr_get (zBuffer r) ?n')"
        by (simp add: tri_accepts_def readDepth_def)
      then obtain d where d: "arr_get (zBuffer r) ?n' = Some (Finite d)"
        and zd: "tri_z bary v0 v1 v2 x' y' \<le> d"
        by (auto simp: num_le_iff)
      from hit have "\<not> num_le (tri_z bary v0 v1 v2 x y) (arr_get (zBuffer r) ?n')"
        by (simp add: tri_accepts_def readDepth_def)
      with d have "d < tri_z bary v0 v1 v2 x y" by simp
      with zd show ?thesis using hit by (simp add: zBuffer_triangle_pixel)
    qed
  next
    case miss: False
    have same: "arr_get (zBuffer ?s) ?n' = arr_get (zBuffer r) ?n'"
      unfolding zBuffer_triangle_pixel if_not_P [OF miss] ..
    show ?thesis
    proof (cases "(x', y') = (x, y)")
      case True
      with miss have "\<not> tri_accepts bary r v0 v1 v2 x' y'" by auto
      with inside show ?thesis unfolding same by (simp add: tri_accepts_def readDepth_def)
    next
      case False
      with assms have "\<not> tri_accepts bary r v0 v1 v2 x' y'" by blast
      with inside show ?thesis unfolding same by (simp add: tri_accepts_def readDepth_def)
    qed
  qed
  then show ?thesis by (simp add: tri_accepts_def readDepth_def)
qed

lemma rejected_after_fold:
  assumes "\<forall>q \<in> set qs. \<not> tri_accepts bary r v0 v1 v2 (fst q) (snd q)"
  shows "\<forall>q \<in> set qs \<union> set ps.
           \<not> tri_accepts bary
               (fold (\<lambda>p s. triangle_pixel bary s v0 v1 v2 t0 t1 t2 k tex (fst p) (snd p)) ps r)
               v0 v1 v2 (fst q) (snd q)"
  using assms
proof (induction ps arbitrary: r qs)
  case Nil
  then show ?case by simp
next
  case (Cons p ps)
  let ?s = "triangle_pixel bary r v0 v1 v2 t0 t1 t2 k tex (fst p) (snd p)"
  have "\<forall>q \<in> set (p # qs). \<not> tri_accepts bary ?s v0 v1 v2 (fst q) (snd q)"
  proof
    fix q assume "q \<in> set (p # qs)"
    then have "(fst q, snd q) = (fst p, snd p) \<or> \<not> tri_accepts bary r v0 v1 v2 (fst q) (snd q)"
      using Cons.prems by auto
    then show "\<not> tri_accepts bary ?s v0 v1 v2 (fst q) (snd q)"
      by (rule rejected_after_step)
  qed
  from Cons.IH [OF this] show ?case by simp
qed

lemma fold_all_rejected:
  "\<forall>q \<in> set ps. \<not> tri_accepts bary r v0 v1 v2 (fst q) (snd q) \<Longrightarrow>
   fold (\<lambda>p s. triangle_pixel bary s v0 v1 v2 t0 t1 t2 k tex (fst p) (snd p)) ps r = r"
  by (induction ps) (simp_all add: triangle_pixel_rejected)

lemma triangle_twice:
  "triangle_with bary (triangle_with bary r v0 v1 v2 t0 t1 t2 k tex) v0 v1 v2 t0' t1' t2' k' tex' =
   triangle_with bary r v0 v1 v2 t0 t1 t2 k tex"
proof -
  have "\<forall>q \<in> set [] \<union> set (bbox v0 v1 v2).
          \<not> tri_accepts bary (triangle_with bary r v0 v1 v2 t0 t1 t2 k tex) v0 v1 v2 (fst q) (snd q)"
    unfolding triangle_with_fold by (rule rejected_after_fold) simp
  then show ?thesis
    by (subst triangle_with_fold) (simp add: fold_all_rejected)
qed


lemma zBuffer_update_simps [simp]:
  "width (r\<lparr>zBuffer := z\<rparr>) = width r"
  "height (r\<lparr>zBuffer := z\<rparr>) = height r"
  "well_formed (r\<lparr>zBuffer := z\<rparr>) = well_formed r"
  "in_buffer (r\<lparr>zBuffer := z\<rparr>) i j = in_buffer r i j"
  "readPixel (r\<lparr>zBuffer := z\<rparr>) i j = readPixel r i j"
  "px (r\<lparr>zBuffer := z\<rparr>) n = px r n"
  by (simp_all add: width_def height_def well_formed_def in_buffer_def readPixel_def px_def)

lemma readPixel_step:
  assumes "well_formed r" and "in_buffer r x y" and "in_buffer r i j"
  shows "readPixel (triangle_pixel bary r v0 v1 v2 t0 t1 t2 k tex x y) i j =
           (if (i, j) = (x, y) \<and> tri_accepts bary r v0 v1 v2 x y
            then bytes (tri_color bary v0 v1 v2 t0 t1 t2 k tex x y)
            else readPixel r i j)"
proof (cases "tri_accepts bary r v0 v1 v2 x y")
  case False
  then show ?thesis by (simp add: triangle_pixel_rejected)
next
  case True
  let ?r = "r\<lparr>zBuffer := arr_set (zBuffer r) (y * width r + x)
               (Finite (tri_z bary v0 v1 v2 x y))\<rparr>"
  have w: "well_formed ?r" and b: "in_buffer ?r i j"
    and v: "in_buffer ?r (trunc (fst (real_of_int x, real_of_int y)))
              (trunc (snd (real_of_int x, real_of_int y)))"
    using assms by simp_all
  show ?thesis
    using True readPixel_pixel [OF w b v, of "tri_color bary v0 v1 v2 t0 t1 t2 k tex x y"]
    by (simp add: triangle_pixel_alt)
qed

lemma readDepth_step:
  assumes "in_buffer r x y" and "in_buffer r i j"
  shows "readDepth (triangle_pixel bary r v0 v1 v2 t0 t1 t2 k tex x y) i j =
           (if (i, j) = (x, y) \<and> tri_accepts bary r v0 v1 v2 x y
            then Some (Finite (tri_z bary v0 v1 v2 x y))
            else readDepth r i j)"
proof -
  have e: "(j * width r + i = y * width r + x) = (i = x \<and> j = y)"
    using assms by (intro idx_eq_iff) (simp_all add: in_buffer_def)
  show ?thesis
    unfolding readDepth_def triangle_pixel_width zBuffer_triangle_pixel e by auto
qed

lemma tri_accepts_step:
  assumes "in_buffer r x y" and "in_buffer r i j" and "(i, j) \<noteq> (x, y)"
  shows "tri_accepts bary (triangle_pixel bary r v0 v1 v2 t0 t1 t2 k tex x y) v0 v1 v2 i j =
         tri_accepts bary r v0 v1 v2 i j"
proof -
  have "readDepth (triangle_pixel bary r v0 v1 v2 t0 t1 t2 k tex x y) i j = readDepth r i j"
    using readDepth_step [OF assms(1,2), of bary v0 v1 v2 t0 t1 t2 k tex] assms(3) by auto
  then show ?thesis by (simp add: tri_accepts_def)
qed

lemma fold_triangle_pixel_frame:
  "width (fold (\<lambda>p s. triangle_pixel bary s v0 v1 v2 t0 t1 t2 k tex (fst p) (snd p)) ps r) = width r \<and>
   height (fold (\<lambda>p s. triangle_pixel bary s v0 v1 v2 t0 t1 t2 k tex (fst p) (snd p)) ps r) = height r \<and>
   length (idata (imageData
     (fold (\<lambda>p s. triangle_pixel bary s v0 v1 v2 t0 t1 t2 k tex (fst p) (snd p)) ps r))) =
     length (idata (imageData r))"
  by (induction ps arbitrary: r) simp_all

lemma fold_triangle_pixel_effect:
  assumes "well_formed r" and "\<forall>p \<in> set ps. in_buffer r (fst p) (snd p)" and "distinct ps"
    and "in_buffer r i j"
  shows "readPixel (fold (\<lambda>p s. triangle_pixel bary s v0 v1 v2 t0 t1 t2 k tex (fst p) (snd p)) ps r) i j =
           (if (i, j) \<in> set ps \<and> tri_accepts bary r v0 v1 v2 i j
            then bytes (tri_color bary v0 v1 v2 t0 t1 t2 k tex i j)
            else readPixel r i j)
         \<and> readDepth (fold (\<lambda>p s. triangle_pixel bary s v0 v1 v2 t0 t1 t2 k tex (fst p) (snd p)) ps r) i j =
           (if (i, j) \<in> set ps \<and> tri_accepts bary r v0 v1 v2 i j
            then Some (Finite (tri_z bary v0 v1 v2 i j))
            else readDepth r i j)"
  using assms
proof (induction ps arbitrary: r)
  case Nil
  then show ?case by simp
next
  case (Cons p ps)
  let ?s = "triangle_pixel bary r v0 v1 v2 t0 t1 t2 k tex (fst p) (snd p)"
  let ?f = "\<lambda>p s. triangle_pixel bary s v0 v1 v2 t0 t1 t2 k tex (fst p) (snd p)"
  have pb: "in_buffer r (fst p) (snd p)" using Cons.prems(2) by simp
  have ib: "in_buffer r i j" by (rule Cons.prems(4))
  have IH: "readPixel (fold ?f ps ?s) i j =
              (if (i, j) \<in> set ps \<and> tri_accepts bary ?s v0 v1 v2 i j
               then bytes (tri_color bary v0 v1 v2 t0 t1 t2 k tex i j)
               else readPixel ?s i j)
            \<and> readDepth (fold ?f ps ?s) i j =
              (if (i, j) \<in> set ps \<and> tri_accepts bary ?s v0 v1 v2 i j
               then Some (Finite (tri_z bary v0 v1 v2 i j))
               else readDepth ?s i j)"
    using Cons.prems by (intro Cons.IH) simp_all
  show ?case
  proof (cases "(i, j) = p")
    case True
    then have notin: "(i, j) \<notin> set ps" using Cons.prems(3) by auto
    have fs: "fst p = i" "snd p = j" using True by auto
    have mem: "(i, j) \<in> set (p # ps)" using True by simp
    have rp: "readPixel ?s i j =
                (if tri_accepts bary r v0 v1 v2 i j
                 then bytes (tri_color bary v0 v1 v2 t0 t1 t2 k tex i j)
                 else readPixel r i j)"
      using readPixel_step [OF Cons.prems(1) pb ib, of bary v0 v1 v2 t0 t1 t2 k tex]
      unfolding fs by simp
    have rd: "readDepth ?s i j =
                (if tri_accepts bary r v0 v1 v2 i j
                 then Some (Finite (tri_z bary v0 v1 v2 i j))
                 else readDepth r i j)"
      using readDepth_step [OF pb ib, of bary v0 v1 v2 t0 t1 t2 k tex]
      unfolding fs by simp
    have "readPixel (fold ?f ps ?s) i j = readPixel ?s i j"
      and "readDepth (fold ?f ps ?s) i j = readDepth ?s i j"
      using IH notin by simp_all
    then show ?thesis
      using mem rp rd by simp
  next
    case False
    then have ne: "(i, j) \<noteq> (fst p, snd p)" by auto
    have acc: "tri_accepts bary ?s v0 v1 v2 i j = tri_accepts bary r v0 v1 v2 i j"
      by (rule tri_accepts_step [OF pb ib ne])
    have rp: "readPixel ?s i j = readPixel r i j"
      using readPixel_step [OF Cons.prems(1) pb ib, of bary v0 v1 v2 t0 t1 t2 k tex] ne by simp
    have rd: "readDepth ?s i j = readDepth r i j"
      using readDepth_step [OF pb ib, of bary v0 v1 v2 t0 t1 t2 k tex] ne by simp
    show ?thesis
      using IH False unfolding acc rp rd by auto
  qed
qed


lemma set_bbox:
  "set (bbox v0 v1 v2) =
     {trunc (min3 (fst v0) (fst v1) (fst v2)) .. trunc (max3 (fst v0) (fst v1) (fst v2))} \<times>
     {trunc (min3 (fst (snd v0)) (fst (snd v1)) (fst (snd v2))) ..
      trunc (max3 (fst (snd v0)) (fst (snd v1)) (fst (snd v2)))}"
  by (simp add: bbox_def)

lemma distinct_bbox: "distinct (bbox v0 v1 v2)"
  by (simp add: bbox_def distinct_product)

lemma trunc_le: "m \<le> real_of_int i \<Longrightarrow> trunc m \<le> i"
  by (auto simp: trunc_def floor_le_iff ceiling_le_iff)

lemma le_trunc: "real_of_int i \<le> m \<Longrightarrow> i \<le> trunc m"
  by (auto simp: trunc_def le_floor_iff le_ceiling_iff)

lemma trunc_nonneg: "0 \<le> m \<Longrightarrow> 0 \<le> trunc m"
  by (simp add: trunc_def)

lemma trunc_less: "0 \<le> m \<Longrightarrow> m < real_of_int w \<Longrightarrow> trunc m < w"
  by (simp add: trunc_def floor_less_iff)

lemma bbox_in_buffer:
  assumes "vertex_in_buffer r v0" and "vertex_in_buffer r v1" and "vertex_in_buffer r v2"
  shows "\<forall>p \<in> set (bbox v0 v1 v2). in_buffer r (fst p) (snd p)"
proof -
  have x0: "0 \<le> min3 (fst v0) (fst v1) (fst v2)"
    and x1: "0 \<le> max3 (fst v0) (fst v1) (fst v2)"
    and x2: "max3 (fst v0) (fst v1) (fst v2) < real_of_int (width r)"
    and y0: "0 \<le> min3 (fst (snd v0)) (fst (snd v1)) (fst (snd v2))"
    and y1: "0 \<le> max3 (fst (snd v0)) (fst (snd v1)) (fst (snd v2))"
    and y2: "max3 (fst (snd v0)) (fst (snd v1)) (fst (snd v2)) < real_of_int (height r)"
    using assms by (auto simp: vertex_in_buffer_def min3_def max3_def max_def min_def)
  show ?thesis
    using trunc_nonneg [OF x0] trunc_less [OF x1 x2] trunc_nonneg [OF y0] trunc_less [OF y1 y2]
    by (auto simp: set_bbox in_buffer_def)
qed

lemma cross2_sum: "cross2 b c p + cross2 c a p + cross2 a b p = cross2 a b c"
  by (simp add: cross2_def algebra_simps)

lemma cross2_fst:
  "cross2 b c p * fst a + cross2 c a p * fst b + cross2 a b p * fst c = cross2 a b c * fst p"
  by (simp add: cross2_def algebra_simps)

lemma cross2_snd:
  "cross2 b c p * snd a + cross2 c a p * snd b + cross2 a b p * snd c = cross2 a b c * snd p"
  by (simp add: cross2_def algebra_simps)

lemma barycentric_nondegenerate:
  "cross2 (xy a) (xy b) (xy c) \<noteq> 0 \<Longrightarrow>
   barycentric a b c p =
     (cross2 (xy b) (xy c) p / cross2 (xy a) (xy b) (xy c),
      cross2 (xy c) (xy a) p / cross2 (xy a) (xy b) (xy c),
      cross2 (xy a) (xy b) p / cross2 (xy a) (xy b) (xy c))"
  by (simp add: barycentric_def Let_def)

lemma barycentric_degenerate:
  "cross2 (xy a) (xy b) (xy c) = 0 \<Longrightarrow> barycentric a b c p = (- 1, 1, 1)"
  by (simp add: barycentric_def Let_def)

text \<open>The weights of a non-degenerate triangle sum to 1 and reproduce the point.\<close>

lemma barycentric_sum:
  assumes "cross2 (xy a) (xy b) (xy c) \<noteq> 0" and "barycentric a b c p = (b0, b1, b2)"
  shows "b0 + b1 + b2 = 1"
    and "b0 * fst (xy a) + b1 * fst (xy b) + b2 * fst (xy c) = fst p"
    and "b0 * snd (xy a) + b1 * snd (xy b) + b2 * snd (xy c) = snd p"
proof -
  let ?A = "cross2 (xy a) (xy b) (xy c)"
  have b: "b0 = cross2 (xy b) (xy c) p / ?A" "b1 = cross2 (xy c) (xy a) p / ?A"
    "b2 = cross2 (xy a) (xy b) p / ?A"
    using assms by (simp_all add: barycentric_nondegenerate)
  have "b0 + b1 + b2 = (cross2 (xy b) (xy c) p + cross2 (xy c) (xy a) p + cross2 (xy a) (xy b) p) / ?A"
    unfolding b by (simp add: add_divide_distrib)
  then show "b0 + b1 + b2 = 1" using assms(1) by (simp add: cross2_sum)
  have "b0 * fst (xy a) + b1 * fst (xy b) + b2 * fst (xy c) =
        (cross2 (xy b) (xy c) p * fst (xy a) + cross2 (xy c) (xy a) p * fst (xy b)
          + cross2 (xy a) (xy b) p * fst (xy c)) / ?A"
    unfolding b by (simp add: add_divide_distrib)
  then show "b0 * fst (xy a) + b1 * fst (xy b) + b2 * fst (xy c) = fst p"
    using assms(1) by (simp add: cross2_fst)
  have "b0 * snd (xy a) + b1 * snd (xy b) + b2 * snd (xy c) =
        (cross2 (xy b) (xy c) p * snd (xy a) + cross2 (xy c) (xy a) p * snd (xy b)
          + cross2 (xy a) (xy b) p * snd (xy c)) / ?A"
    unfolding b by (simp add: add_divide_distrib)
  then show "b0 * snd (xy a) + b1 * snd (xy b) + b2 * snd (xy c) = snd p"
    using assms(1) by (simp add: cross2_snd)
qed

lemma convex3_lower:
  fixes a b c :: real
  assumes "0 \<le> a" "0 \<le> b" "0 \<le> c" "a + b + c = 1" "lo \<le> x" "lo \<le> y" "lo \<le> z"
  shows "lo \<le> a * x + b * y + c * z"
proof -
  have "a * lo \<le> a * x" "b * lo \<le> b * y" "c * lo \<le> c * z"
    using assms by (simp_all add: mult_left_mono)
  then have "(a + b + c) * lo \<le> a * x + b * y + c * z"
    by (simp add: algebra_simps)
  then show ?thesis using assms(4) by simp
qed

lemma convex3_upper:
  fixes a b c :: real
  assumes "0 \<le> a" "0 \<le> b" "0 \<le> c" "a + b + c = 1" "x \<le> hi" "y \<le> hi" "z \<le> hi"
  shows "a * x + b * y + c * z \<le> hi"
proof -
  have "a * x \<le> a * hi" "b * y \<le> b * hi" "c * z \<le> c * hi"
    using assms by (simp_all add: mult_left_mono)
  then have "a * x + b * y + c * z \<le> (a + b + c) * hi"
    by (simp add: algebra_simps)
  then show ?thesis using assms(4) by simp
qed


lemma xy_simps [simp]: "fst (xy v) = fst v" "snd (xy v) = fst (snd v)"
  by (simp_all add: xy_def)

lemma strictly_inside_weights:
  assumes "strictly_inside (xy a) (xy b) (xy c) p"
  shows "cross2 (xy a) (xy b) (xy c) \<noteq> 0"
    and "0 < fst (barycentric a b c p)"
    and "0 < fst (snd (barycentric a b c p))"
    and "0 < snd (snd (barycentric a b c p))"
proof -
  let ?A = "cross2 (xy a) (xy b) (xy c)"
  let ?d0 = "cross2 (xy b) (xy c) p" and ?d1 = "cross2 (xy c) (xy a) p"
    and ?d2 = "cross2 (xy a) (xy b) p"
  have sum: "?d0 + ?d1 + ?d2 = ?A" by (rule cross2_sum)
  from assms consider (pos) "0 < ?d0" "0 < ?d1" "0 < ?d2" | (neg) "?d0 < 0" "?d1 < 0" "?d2 < 0"
    unfolding strictly_inside_def by blast
  then have "?A \<noteq> 0 \<and> 0 < ?d0 / ?A \<and> 0 < ?d1 / ?A \<and> 0 < ?d2 / ?A"
  proof cases
    case pos
    then have "0 < ?A" using sum by linarith
    with pos show ?thesis by simp
  next
    case neg
    then have "?A < 0" using sum by linarith
    with neg show ?thesis by (simp add: divide_neg_neg)
  qed
  then show "?A \<noteq> 0" and "0 < fst (barycentric a b c p)"
    and "0 < fst (snd (barycentric a b c p))" and "0 < snd (snd (barycentric a b c p))"
    by (simp_all add: barycentric_nondegenerate)
qed

lemma strictly_outside_weights:
  assumes "strictly_outside (xy a) (xy b) (xy c) p"
  shows "fst (barycentric a b c p) < 0 \<or> fst (snd (barycentric a b c p)) < 0
         \<or> snd (snd (barycentric a b c p)) < 0"
proof -
  let ?A = "cross2 (xy a) (xy b) (xy c)"
  let ?d0 = "cross2 (xy b) (xy c) p" and ?d1 = "cross2 (xy c) (xy a) p"
    and ?d2 = "cross2 (xy a) (xy b) p"
  from assms consider (pos) "0 < ?A" "?d0 < 0 \<or> ?d1 < 0 \<or> ?d2 < 0"
    | (neg) "?A < 0" "0 < ?d0 \<or> 0 < ?d1 \<or> 0 < ?d2"
    unfolding strictly_outside_def by blast
  then have "?A \<noteq> 0 \<and> (?d0 / ?A < 0 \<or> ?d1 / ?A < 0 \<or> ?d2 / ?A < 0)"
  proof cases
    case pos
    then show ?thesis by (auto simp: divide_neg_pos)
  next
    case neg
    then show ?thesis by (auto simp: divide_pos_neg)
  qed
  then show ?thesis by (auto simp: barycentric_nondegenerate)
qed

lemma strictly_outside_not_inside:
  "strictly_outside (xy v0) (xy v1) (xy v2) (real_of_int i, real_of_int j) \<Longrightarrow>
   \<not> tri_inside barycentric v0 v1 v2 i j"
  using strictly_outside_weights [of v0 v1 v2 "(real_of_int i, real_of_int j)"]
  by (auto simp: tri_inside_def Let_def)

lemma strictly_inside_tri_inside:
  "strictly_inside (xy v0) (xy v1) (xy v2) (real_of_int i, real_of_int j) \<Longrightarrow>
   tri_inside barycentric v0 v1 v2 i j"
  using strictly_inside_weights [of v0 v1 v2 "(real_of_int i, real_of_int j)"]
  by (simp add: tri_inside_def Let_def)

lemma inside_in_bbox:
  assumes "cross2 (xy v0) (xy v1) (xy v2) \<noteq> 0" and "tri_inside barycentric v0 v1 v2 i j"
  shows "(i, j) \<in> set (bbox v0 v1 v2)"
proof -
  let ?p = "(real_of_int i, real_of_int j)"
  obtain b0 b1 b2 where bc: "barycentric v0 v1 v2 ?p = (b0, b1, b2)"
    using prod_cases3 by blast
  have nn: "0 \<le> b0" "0 \<le> b1" "0 \<le> b2"
    using assms(2) by (simp_all add: tri_inside_def bc)
  note s = barycentric_sum [OF assms(1) bc]
  have px: "b0 * fst v0 + b1 * fst v1 + b2 * fst v2 = real_of_int i"
    and py: "b0 * fst (snd v0) + b1 * fst (snd v1) + b2 * fst (snd v2) = real_of_int j"
    using s(2,3) by simp_all
  have "min3 (fst v0) (fst v1) (fst v2) \<le> b0 * fst v0 + b1 * fst v1 + b2 * fst v2"
    by (rule convex3_lower [OF nn s(1)]) (simp_all add: min3_def)
  then have x0: "trunc (min3 (fst v0) (fst v1) (fst v2)) \<le> i"
    unfolding px by (rule trunc_le)
  have "b0 * fst v0 + b1 * fst v1 + b2 * fst v2 \<le> max3 (fst v0) (fst v1) (fst v2)"
    by (rule convex3_upper [OF nn s(1)]) (simp_all add: max3_def)
  then have x1: "i \<le> trunc (max3 (fst v0) (fst v1) (fst v2))"
    unfolding px by (rule le_trunc)
  have "min3 (fst (snd v0)) (fst (snd v1)) (fst (snd v2))
          \<le> b0 * fst (snd v0) + b1 * fst (snd v1) + b2 * fst (snd v2)"
    by (rule convex3_lower [OF nn s(1)]) (simp_all add: min3_def)
  then have y0: "trunc (min3 (fst (snd v0)) (fst (snd v1)) (fst (snd v2))) \<le> j"
    unfolding py by (rule trunc_le)
  have "b0 * fst (snd v0) + b1 * fst (snd v1) + b2 * fst (snd v2)
          \<le> max3 (fst (snd v0)) (fst (snd v1)) (fst (snd v2))"
    by (rule convex3_upper [OF nn s(1)]) (simp_all add: max3_def)
  then have y1: "j \<le> trunc (max3 (fst (snd v0)) (fst (snd v1)) (fst (snd v2)))"
    unfolding py by (rule le_trunc)
  show ?thesis using x0 x1 y0 y1 by (simp add: set_bbox)
qed

lemma flat_index_range:
  fixes w h x y :: int
  assumes "0 \<le> x" "x < w" "0 \<le> y" "y < h"
  shows "0 \<le> y * w + x" and "(y * w + x) * 4 + 3 < w * h * 4"
proof -
  have w: "0 < w" using assms by simp
  show "0 \<le> y * w + x" using w assms by simp
  have "y + 1 \<le> h" using assms by simp
  then have "(y + 1) * w \<le> h * w"
    using w by (intro mult_right_mono) simp_all
  then have "y * w + x < h * w"
    using assms by (simp add: algebra_simps)
  then show "(y * w + x) * 4 + 3 < w * h * 4"
    by (simp add: algebra_simps)
qed

lemma ta_load_replicate:
  "0 \<le> k \<Longrightarrow> k < int n \<Longrightarrow> ta_load (replicate n b) k = Some (real b)"
  by (simp add: ta_load_def)

lemma getPixel_uniform:
  assumes "0 < w" and "0 < h" and "0 \<le> u" and "u < 1" and "0 \<le> s" and "s < 1"
  shows "getPixel (uniform_texture w h b) (u * real_of_int w, s * real_of_int h) =
           (Some (real b), Some (real b), Some (real b), Some (real b))"
proof -
  let ?x = "trunc (u * real_of_int w)" and ?y = "trunc (s * real_of_int h)"
  have uw: "0 \<le> u * real_of_int w" "u * real_of_int w < real_of_int w"
    using assms(1,3,4) by (simp_all add: mult_less_cancel_right1)
  have sh: "0 \<le> s * real_of_int h" "s * real_of_int h < real_of_int h"
    using assms(2,5,6) by (simp_all add: mult_less_cancel_right1)
  have x: "0 \<le> ?x" "?x < w" using uw by (simp_all add: trunc_nonneg trunc_less)
  have y: "0 \<le> ?y" "?y < h" using sh by (simp_all add: trunc_nonneg trunc_less)
  define n where "n = ?y * w + ?x"
  have r: "0 \<le> n" "n * 4 + 3 < w * h * 4"
    unfolding n_def by (rule flat_index_range [OF x y])+
  have len: "int (nat (w * h * 4)) = w * h * 4" using assms(1,2) by simp
  have k0: "0 \<le> n * 4" "n * 4 < int (nat (w * h * 4))"
    and k1: "0 \<le> n * 4 + 1" "n * 4 + 1 < int (nat (w * h * 4))"
    and k2: "0 \<le> n * 4 + 2" "n * 4 + 2 < int (nat (w * h * 4))"
    and k3: "0 \<le> n * 4 + 3" "n * 4 + 3 < int (nat (w * h * 4))"
    unfolding len using r by simp_all
  have "(ta_load (replicate (nat (w * h * 4)) b) (n * 4),
         ta_load (replicate (nat (w * h * 4)) b) (n * 4 + 1),
         ta_load (replicate (nat (w * h * 4)) b) (n * 4 + 2),
         ta_load (replicate (nat (w * h * 4)) b) (n * 4 + 3)) =
        (Some (real b), Some (real b), Some (real b), Some (real b))"
    by (simp only: ta_load_replicate [OF k0] ta_load_replicate [OF k1]
        ta_load_replicate [OF k2] ta_load_replicate [OF k3])
  then show ?thesis
    unfolding getPixel_def uniform_texture_def Let_def BYTES_PER_PIXEL_def n_def
    by simp
qed


lemma triangle_effect:
  assumes "well_formed r" and "\<forall>p \<in> set (bbox v0 v1 v2). in_buffer r (fst p) (snd p)"
    and "in_buffer r i j"
  shows "readPixel (triangle_with bary r v0 v1 v2 t0 t1 t2 k tex) i j =
           (if (i, j) \<in> set (bbox v0 v1 v2) \<and> tri_accepts bary r v0 v1 v2 i j
            then bytes (tri_color bary v0 v1 v2 t0 t1 t2 k tex i j)
            else readPixel r i j)
         \<and> readDepth (triangle_with bary r v0 v1 v2 t0 t1 t2 k tex) i j =
           (if (i, j) \<in> set (bbox v0 v1 v2) \<and> tri_accepts bary r v0 v1 v2 i j
            then Some (Finite (tri_z bary v0 v1 v2 i j))
            else readDepth r i j)"
  unfolding triangle_with_fold
  by (rule fold_triangle_pixel_effect [OF assms(1,2) distinct_bbox assms(3)])

lemma triangle_with_frame:
  "width (triangle_with bary r v0 v1 v2 t0 t1 t2 k tex) = width r \<and>
   height (triangle_with bary r v0 v1 v2 t0 t1 t2 k tex) = height r \<and>
   length (idata (imageData (triangle_with bary r v0 v1 v2 t0 t1 t2 k tex))) =
     length (idata (imageData r))"
  unfolding triangle_with_fold by (rule fold_triangle_pixel_frame)

lemma well_formed_triangle_with [simp]:
  "well_formed (triangle_with bary r v0 v1 v2 t0 t1 t2 k tex) = well_formed r"
  by (simp add: well_formed_def triangle_with_frame)

lemma tri_color_uniform:
  assumes "cross2 (xy v0) (xy v1) (xy v2) \<noteq> 0" and "tri_inside barycentric v0 v1 v2 i j"
    and "texcoord_ok t0" and "texcoord_ok t1" and "texcoord_ok t2" and "0 < w" and "0 < h"
  shows "tri_color barycentric v0 v1 v2 t0 t1 t2 k (uniform_texture w h b) i j =
           (Some (real b * k), Some (real b * k), Some (real b * k), Some (real b))"
proof -
  let ?p = "(real_of_int i, real_of_int j)"
  obtain b0 b1 b2 where bc: "barycentric v0 v1 v2 ?p = (b0, b1, b2)"
    using prod_cases3 by blast
  have nn: "0 \<le> b0" "0 \<le> b1" "0 \<le> b2"
    using assms(2) by (simp_all add: tri_inside_def bc)
  have s: "b0 + b1 + b2 = 1" by (rule barycentric_sum(1) [OF assms(1) bc])
  define u where "u = fst t0 * b0 + fst t1 * b1 + fst t2 * b2"
  define v where "v = snd t0 * b0 + snd t1 * b1 + snd t2 * b2"
  have u': "u = b0 * fst t0 + b1 * fst t1 + b2 * fst t2"
    and v': "v = b0 * snd t0 + b1 * snd t1 + b2 * snd t2"
    by (simp_all add: u_def v_def mult.commute)
  have t: "0 \<le> fst t0" "0 \<le> fst t1" "0 \<le> fst t2" "fst t0 < 1" "fst t1 < 1" "fst t2 < 1"
    "0 < snd t0" "0 < snd t1" "0 < snd t2" "snd t0 \<le> 1" "snd t1 \<le> 1" "snd t2 \<le> 1"
    using assms(3-5) by (simp_all add: texcoord_ok_def)
  have u0: "0 \<le> u" unfolding u' by (rule convex3_lower [OF nn s t(1-3)])
  have "u \<le> max3 (fst t0) (fst t1) (fst t2)"
    unfolding u' by (rule convex3_upper [OF nn s]) (simp_all add: max3_def)
  moreover have "max3 (fst t0) (fst t1) (fst t2) < 1"
    using t(4-6) by (simp add: max3_def)
  ultimately have u1: "u < 1" by simp
  have "min3 (snd t0) (snd t1) (snd t2) \<le> v"
    unfolding v' by (rule convex3_lower [OF nn s]) (simp_all add: min3_def)
  moreover have "0 < min3 (snd t0) (snd t1) (snd t2)"
    using t(7-9) by (simp add: min3_def)
  ultimately have v0: "1 - v < 1" by simp
  have "v \<le> 1" unfolding v' by (rule convex3_upper [OF nn s t(10-12)])
  then have v1: "0 \<le> 1 - v" by simp
  have g: "getPixel (uniform_texture w h b) (u * real_of_int w, (1 - v) * real_of_int h) =
             (Some (real b), Some (real b), Some (real b), Some (real b))"
    by (rule getPixel_uniform [OF assms(6,7) u0 u1 v1 v0])
  have wh: "iwidth (uniform_texture w h b) = w" "iheight (uniform_texture w h b) = h"
    by (simp_all add: uniform_texture_def)
  show ?thesis
    unfolding tri_color_def bc Let_def fst_conv snd_conv wh
    unfolding u_def [symmetric] v_def [symmetric] g
    by simp
qed


lemma getPixel_uniform_index:
  assumes "0 \<le> trunc (snd p) * w + trunc (fst p)"
    and "trunc (snd p) * w + trunc (fst p) < w * h"
  shows "getPixel (uniform_texture w h b) p =
           (Some (real b), Some (real b), Some (real b), Some (real b))"
proof -
  define n where "n = trunc (snd p) * w + trunc (fst p)"
  have r: "0 \<le> n" "n < w * h" using assms by (simp_all add: n_def)
  have len: "int (nat (w * h * 4)) = w * h * 4" using r by simp
  have k0: "0 \<le> n * 4" "n * 4 < int (nat (w * h * 4))"
    and k1: "0 \<le> n * 4 + 1" "n * 4 + 1 < int (nat (w * h * 4))"
    and k2: "0 \<le> n * 4 + 2" "n * 4 + 2 < int (nat (w * h * 4))"
    and k3: "0 \<le> n * 4 + 3" "n * 4 + 3 < int (nat (w * h * 4))"
    unfolding len using r by simp_all
  have "(ta_load (replicate (nat (w * h * 4)) b) (n * 4),
         ta_load (replicate (nat (w * h * 4)) b) (n * 4 + 1),
         ta_load (replicate (nat (w * h * 4)) b) (n * 4 + 2),
         ta_load (replicate (nat (w * h * 4)) b) (n * 4 + 3)) =
        (Some (real b), Some (real b), Some (real b), Some (real b))"
    by (simp only: ta_load_replicate [OF k0] ta_load_replicate [OF k1]
        ta_load_replicate [OF k2] ta_load_replicate [OF k3])
  then show ?thesis
    unfolding getPixel_def uniform_texture_def Let_def BYTES_PER_PIXEL_def n_def
    by simp
qed

lemma tri_color_uniform_sample:
  assumes "0 \<le> tri_sample bary v0 v1 v2 t0 t1 t2 (uniform_texture w h b) i j"
    and "tri_sample bary v0 v1 v2 t0 t1 t2 (uniform_texture w h b) i j < w * h"
  shows "tri_color bary v0 v1 v2 t0 t1 t2 k (uniform_texture w h b) i j =
           (Some (real b * k), Some (real b * k), Some (real b * k), Some (real b))"
proof -
  let ?bc = "bary v0 v1 v2 (real_of_int i, real_of_int j)"
  define u where "u = fst t0 * fst ?bc + fst t1 * fst (snd ?bc) + fst t2 * snd (snd ?bc)"
  define v where "v = snd t0 * fst ?bc + snd t1 * fst (snd ?bc) + snd t2 * snd (snd ?bc)"
  have wh: "iwidth (uniform_texture w h b) = w" "iheight (uniform_texture w h b) = h"
    by (simp_all add: uniform_texture_def)
  have s: "tri_sample bary v0 v1 v2 t0 t1 t2 (uniform_texture w h b) i j =
             trunc ((1 - v) * real_of_int h) * w + trunc (u * real_of_int w)"
    by (simp add: tri_sample_def Let_def wh u_def v_def)
  have g: "getPixel (uniform_texture w h b) (u * real_of_int w, (1 - v) * real_of_int h) =
             (Some (real b), Some (real b), Some (real b), Some (real b))"
    using assms unfolding s by (intro getPixel_uniform_index) simp_all
  show ?thesis
    unfolding tri_color_def Let_def wh
    unfolding u_def [symmetric] v_def [symmetric] g
    by simp
qed

lemma convex3_below_one:
  fixes a b c :: real
  assumes "0 < a" "0 < b" "0 < c" "a + b + c = 1" "x \<le> 1" "y \<le> 1" "z \<le> 1"
    and "\<not> (x = 1 \<and> y = 1 \<and> z = 1)"
  shows "a * x + b * y + c * z < 1"
proof -
  have le: "a * x \<le> a" "b * y \<le> b" "c * z \<le> c"
    using assms(1-3,5-7) by (simp_all add: mult_le_cancel_left1)
  from assms(8) consider "x < 1" | "y < 1" | "z < 1"
    using assms(5-7) by fastforce
  then have "a * x < a \<or> b * y < b \<or> c * z < c"
    using assms(1-3) by cases (simp_all add: mult_less_cancel_left1)
  then have "a * x + b * y + c * z < a + b + c" using le by linarith
  then show ?thesis using assms(4) by simp
qed

lemma convex3_above_zero:
  fixes a b c :: real
  assumes "0 < a" "0 < b" "0 < c" "0 \<le> x" "0 \<le> y" "0 \<le> z"
    and "\<not> (x = 0 \<and> y = 0 \<and> z = 0)"
  shows "0 < a * x + b * y + c * z"
proof -
  have ge: "0 \<le> a * x" "0 \<le> b * y" "0 \<le> c * z"
    using assms(1-6) by simp_all
  from assms(7) consider "0 < x" | "0 < y" | "0 < z"
    using assms(4-6) by fastforce
  then have "0 < a * x \<or> 0 < b * y \<or> 0 < c * z"
    using assms(1-3) by cases simp_all
  then show ?thesis using ge by linarith
qed

lemma unit_texcoords_sample:
  assumes "strictly_inside (xy v0) (xy v1) (xy v2) (real_of_int i, real_of_int j)"
    and "texcoord_unit t0" and "texcoord_unit t1" and "texcoord_unit t2"
    and "\<not> (fst t0 = 1 \<and> fst t1 = 1 \<and> fst t2 = 1)"
    and "\<not> (snd t0 = 0 \<and> snd t1 = 0 \<and> snd t2 = 0)"
    and "0 < w" and "0 < h"
  shows "0 \<le> tri_sample barycentric v0 v1 v2 t0 t1 t2 (uniform_texture w h b) i j
         \<and> tri_sample barycentric v0 v1 v2 t0 t1 t2 (uniform_texture w h b) i j < w * h"
proof -
  let ?p = "(real_of_int i, real_of_int j)"
  obtain b0 b1 b2 where bc: "barycentric v0 v1 v2 ?p = (b0, b1, b2)"
    using prod_cases3 by blast
  have area: "cross2 (xy v0) (xy v1) (xy v2) \<noteq> 0"
    by (rule strictly_inside_weights(1) [OF assms(1)])
  have pos: "0 < b0" "0 < b1" "0 < b2"
    using strictly_inside_weights(2-4) [OF assms(1)] by (simp_all add: bc)
  have nn: "0 \<le> b0" "0 \<le> b1" "0 \<le> b2" using pos by simp_all
  have s: "b0 + b1 + b2 = 1" by (rule barycentric_sum(1) [OF area bc])
  define u where "u = fst t0 * b0 + fst t1 * b1 + fst t2 * b2"
  define v where "v = snd t0 * b0 + snd t1 * b1 + snd t2 * b2"
  have u': "u = b0 * fst t0 + b1 * fst t1 + b2 * fst t2"
    and v': "v = b0 * snd t0 + b1 * snd t1 + b2 * snd t2"
    by (simp_all add: u_def v_def mult.commute)
  have t: "0 \<le> fst t0" "0 \<le> fst t1" "0 \<le> fst t2" "fst t0 \<le> 1" "fst t1 \<le> 1" "fst t2 \<le> 1"
    "0 \<le> snd t0" "0 \<le> snd t1" "0 \<le> snd t2" "snd t0 \<le> 1" "snd t1 \<le> 1" "snd t2 \<le> 1"
    using assms(2-4) by (simp_all add: texcoord_unit_def)
  have u0: "0 \<le> u" unfolding u' by (rule convex3_lower [OF nn s t(1-3)])
  have u1: "u < 1" unfolding u' by (rule convex3_below_one [OF pos s t(4-6) assms(5)])
  have "0 < v" unfolding v' by (rule convex3_above_zero [OF pos t(7-9) assms(6)])
  then have v0: "1 - v < 1" by simp
  have "v \<le> 1" unfolding v' by (rule convex3_upper [OF nn s t(10-12)])
  then have v1: "0 \<le> 1 - v" by simp
  let ?x = "trunc (u * real_of_int w)" and ?y = "trunc ((1 - v) * real_of_int h)"
  have uw: "0 \<le> u * real_of_int w" "u * real_of_int w < real_of_int w"
    using assms(7) u0 u1 by (simp_all add: mult_less_cancel_right1)
  have sh: "0 \<le> (1 - v) * real_of_int h" "(1 - v) * real_of_int h < real_of_int h"
    using assms(8) v0 v1 by (simp_all add: mult_less_cancel_right1)
  have x: "0 \<le> ?x" "?x < w" using uw by (simp_all add: trunc_nonneg trunc_less)
  have y: "0 \<le> ?y" "?y < h" using sh by (simp_all add: trunc_nonneg trunc_less)
  note r = flat_index_range [OF x y]
  have "?y * w + ?x < w * h" using r(2) by simp
  moreover have "tri_sample barycentric v0 v1 v2 t0 t1 t2 (uniform_texture w h b) i j = ?y * w + ?x"
    by (simp add: tri_sample_def bc Let_def uniform_texture_def u_def v_def)
  ultimately show ?thesis using r(1) by simp
qed


lemma vertex_in_buffer_blank:
  "vertex_in_buffer (blank w h) v =
     (0 \<le> fst v \<and> fst v < real_of_int w \<and> 0 \<le> fst (snd v) \<and> fst (snd v) < real_of_int h)"
  by (simp add: vertex_in_buffer_def)

text \<open>
  C1, as the code has it. A triangle of non-zero area with its three vertices inside the
  buffer is drawn with intensity 1 and a uniform white texture. Then every pixel whose
  integer point \<open>(i, j)\<close>, the point the rasterizer tests, lies strictly inside the
  triangle, whose depth entry does not reject the interpolated depth and whose texture
  sample lands inside the texture's data is a pixel of the buffer and is white afterwards,
  with the interpolated depth as its depth entry. The sample of a strictly inside pixel
  lands inside the texture's data whenever the three texture coordinates are in
  \<open>[0, 1]\<close>, not all with \<open>u = 1\<close> and not all with \<open>v = 0\<close>. And every pixel of
  the buffer strictly outside the triangle keeps its bytes and its depth entry.
\<close>

theorem triangle_white:
  assumes "well_formed r"
    and "vertex_in_buffer r v0" and "vertex_in_buffer r v1" and "vertex_in_buffer r v2"
    and "cross2 (xy v0) (xy v1) (xy v2) \<noteq> 0"
    and "0 < w" and "0 < h"
  shows "(strictly_inside (xy v0) (xy v1) (xy v2) (real_of_int i, real_of_int j)
          \<and> \<not> num_le (tri_z barycentric v0 v1 v2 i j) (readDepth r i j)
          \<and> 0 \<le> tri_sample barycentric v0 v1 v2 t0 t1 t2 (uniform_texture w h 255) i j
          \<and> tri_sample barycentric v0 v1 v2 t0 t1 t2 (uniform_texture w h 255) i j < w * h \<longrightarrow>
            in_buffer r i j
            \<and> readPixel (triangle r v0 v1 v2 t0 t1 t2 1 (uniform_texture w h 255)) i j =
                (255, 255, 255, 255)
            \<and> readDepth (triangle r v0 v1 v2 t0 t1 t2 1 (uniform_texture w h 255)) i j =
                Some (Finite (tri_z barycentric v0 v1 v2 i j)))
         \<and> (strictly_inside (xy v0) (xy v1) (xy v2) (real_of_int i, real_of_int j)
             \<and> texcoord_unit t0 \<and> texcoord_unit t1 \<and> texcoord_unit t2
             \<and> \<not> (fst t0 = 1 \<and> fst t1 = 1 \<and> fst t2 = 1)
             \<and> \<not> (snd t0 = 0 \<and> snd t1 = 0 \<and> snd t2 = 0) \<longrightarrow>
            0 \<le> tri_sample barycentric v0 v1 v2 t0 t1 t2 (uniform_texture w h 255) i j
            \<and> tri_sample barycentric v0 v1 v2 t0 t1 t2 (uniform_texture w h 255) i j < w * h)
         \<and> (in_buffer r i j
             \<and> strictly_outside (xy v0) (xy v1) (xy v2) (real_of_int i, real_of_int j) \<longrightarrow>
            readPixel (triangle r v0 v1 v2 t0 t1 t2 1 (uniform_texture w h 255)) i j =
              readPixel r i j
            \<and> readDepth (triangle r v0 v1 v2 t0 t1 t2 1 (uniform_texture w h 255)) i j =
              readDepth r i j)"
proof (intro conjI impI)
  let ?tex = "uniform_texture w h 255"
  note box = bbox_in_buffer [OF assms(2-4)]
  {
    assume a: "strictly_inside (xy v0) (xy v1) (xy v2) (real_of_int i, real_of_int j)
               \<and> \<not> num_le (tri_z barycentric v0 v1 v2 i j) (readDepth r i j)
               \<and> 0 \<le> tri_sample barycentric v0 v1 v2 t0 t1 t2 ?tex i j
               \<and> tri_sample barycentric v0 v1 v2 t0 t1 t2 ?tex i j < w * h"
    then have ins: "tri_inside barycentric v0 v1 v2 i j"
      by (simp add: strictly_inside_tri_inside)
    have s: "0 \<le> tri_sample barycentric v0 v1 v2 t0 t1 t2 ?tex i j"
      "tri_sample barycentric v0 v1 v2 t0 t1 t2 ?tex i j < w * h"
      using a by simp_all
    have mem: "(i, j) \<in> set (bbox v0 v1 v2)"
      by (rule inside_in_bbox [OF assms(5) ins])
    then have ib: "in_buffer r i j" using box by auto
    have acc: "tri_accepts barycentric r v0 v1 v2 i j"
      using a ins by (simp add: tri_accepts_def)
    have col: "bytes (tri_color barycentric v0 v1 v2 t0 t1 t2 1 ?tex i j) = (255, 255, 255, 255)"
      unfolding tri_color_uniform_sample [OF s]
      by (simp add: ToUint8Clamp_def)
    note e = triangle_effect [OF assms(1) box ib, of barycentric t0 t1 t2 1 ?tex]
    show "in_buffer r i j" by (rule ib)
    show "readPixel (triangle r v0 v1 v2 t0 t1 t2 1 ?tex) i j = (255, 255, 255, 255)"
      using e mem acc col by (simp add: triangle_def)
    show "readDepth (triangle r v0 v1 v2 t0 t1 t2 1 ?tex) i j =
            Some (Finite (tri_z barycentric v0 v1 v2 i j))"
      using e mem acc by (simp add: triangle_def)
  }
  {
    assume a: "strictly_inside (xy v0) (xy v1) (xy v2) (real_of_int i, real_of_int j)
             \<and> texcoord_unit t0 \<and> texcoord_unit t1 \<and> texcoord_unit t2
             \<and> \<not> (fst t0 = 1 \<and> fst t1 = 1 \<and> fst t2 = 1)
             \<and> \<not> (snd t0 = 0 \<and> snd t1 = 0 \<and> snd t2 = 0)"
    then have si: "strictly_inside (xy v0) (xy v1) (xy v2) (real_of_int i, real_of_int j)"
      and t: "texcoord_unit t0" "texcoord_unit t1" "texcoord_unit t2"
      and nu: "\<not> (fst t0 = 1 \<and> fst t1 = 1 \<and> fst t2 = 1)"
      and nv: "\<not> (snd t0 = 0 \<and> snd t1 = 0 \<and> snd t2 = 0)"
      by blast+
    note u = unit_texcoords_sample [OF si t nu nv assms(6,7), of 255]
    show "0 \<le> tri_sample barycentric v0 v1 v2 t0 t1 t2 ?tex i j"
      by (rule u [THEN conjunct1])
    show "tri_sample barycentric v0 v1 v2 t0 t1 t2 ?tex i j < w * h"
      by (rule u [THEN conjunct2])
  }
  {
    assume a: "in_buffer r i j
               \<and> strictly_outside (xy v0) (xy v1) (xy v2) (real_of_int i, real_of_int j)"
    then have ib: "in_buffer r i j" by simp
    have rej: "\<not> tri_accepts barycentric r v0 v1 v2 i j"
      using a strictly_outside_not_inside [of v0 v1 v2 i j] by (simp add: tri_accepts_def)
    note e = triangle_effect [OF assms(1) box ib, of barycentric t0 t1 t2 1 ?tex]
    show "readPixel (triangle r v0 v1 v2 t0 t1 t2 1 ?tex) i j = readPixel r i j"
      using e rej by (simp add: triangle_def)
    show "readDepth (triangle r v0 v1 v2 t0 t1 t2 1 ?tex) i j = readDepth r i j"
      using e rej by (simp add: triangle_def)
  }
qed


lemma texcoord_ok_half: "texcoord_ok (1 / 2, 1 / 2)"
  by (simp add: texcoord_ok_def)

lemma corner_area: "cross2 (xy (0, 0, z)) (xy (3, 0, z')) (xy (0, 3, z'')) = 9"
  by (simp add: cross2_def xy_def)

lemma corner_inside:
  "strictly_inside (xy (0, 0, z)) (xy (3, 0, z')) (xy (0, 3, z''))
     (real_of_int 1, real_of_int 1)"
  by (simp add: strictly_inside_def cross2_def xy_def)

lemma corner_outside:
  "strictly_outside (xy (0, 0, z)) (xy (3, 0, z')) (xy (0, 3, z''))
     (real_of_int 3, real_of_int 3)"
  by (simp add: strictly_outside_def cross2_def xy_def)

lemma corner_z: "tri_z barycentric (0, 0, z) (3, 0, z) (0, 3, z) 1 1 = z"
  by (simp add: tri_z_def barycentric_def cross2_def xy_def Let_def algebra_simps)

lemma corner_in_buffer:
  "width r = 4 \<Longrightarrow> height r = 4 \<Longrightarrow>
   vertex_in_buffer r (0, 0, z) \<and> vertex_in_buffer r (3, 0, z) \<and> vertex_in_buffer r (0, 3, z)"
  by (simp add: vertex_in_buffer_def)

lemma corner_weights:
  "barycentric (0, 0, z) (3, 0, z') (0, 3, z'') (1, 1) = (1 / 3, 1 / 3, 1 / 3)"
  by (simp add: barycentric_def cross2_def xy_def Let_def)

theorem triangle_white_witness:
  "well_formed (blank 4 4)
   \<and> vertex_in_buffer (blank 4 4) (0, 0, 1) \<and> vertex_in_buffer (blank 4 4) (3, 0, 1)
   \<and> vertex_in_buffer (blank 4 4) (0, 3, 1)
   \<and> cross2 (xy (0, 0, 1)) (xy (3, 0, 1)) (xy (0, 3, 1)) \<noteq> 0
   \<and> texcoord_unit (0, 0) \<and> texcoord_unit (1, 0) \<and> texcoord_unit (0, 1)
   \<and> strictly_inside (xy (0, 0, 1)) (xy (3, 0, 1)) (xy (0, 3, 1)) (real_of_int 1, real_of_int 1)
   \<and> readDepth (blank 4 4) 1 1 = Some NegInfinity
   \<and> 0 \<le> tri_sample barycentric (0, 0, 1) (3, 0, 1) (0, 3, 1) (0, 0) (1, 0) (0, 1)
           (uniform_texture 2 2 255) 1 1
   \<and> tri_sample barycentric (0, 0, 1) (3, 0, 1) (0, 3, 1) (0, 0) (1, 0) (0, 1)
        (uniform_texture 2 2 255) 1 1 < 2 * 2
   \<and> readPixel (triangle (blank 4 4) (0, 0, 1) (3, 0, 1) (0, 3, 1)
         (0, 0) (1, 0) (0, 1) 1 (uniform_texture 2 2 255)) 1 1 =
       (255, 255, 255, 255)
   \<and> in_buffer (blank 4 4) 3 3
   \<and> strictly_outside (xy (0, 0, 1)) (xy (3, 0, 1)) (xy (0, 3, 1)) (real_of_int 3, real_of_int 3)
   \<and> readPixel (triangle (blank 4 4) (0, 0, 1) (3, 0, 1) (0, 3, 1)
         (0, 0) (1, 0) (0, 1) 1 (uniform_texture 2 2 255)) 3 3 =
       (0, 0, 0, 255)
   \<and> readDepth (triangle (blank 4 4) (0, 0, 1) (3, 0, 1) (0, 3, 1)
         (0, 0) (1, 0) (0, 1) 1 (uniform_texture 2 2 255)) 3 3 =
       Some NegInfinity"
proof -
  let ?r = "blank 4 4"
  let ?v0 = "(0, 0, 1) :: Vector3" and ?v1 = "(3, 0, 1) :: Vector3" and ?v2 = "(0, 3, 1) :: Vector3"
  let ?t0 = "(0, 0) :: Vector2" and ?t1 = "(1, 0) :: Vector2" and ?t2 = "(0, 1) :: Vector2"
  let ?tex = "uniform_texture 2 2 255"
  have w: "well_formed ?r" by (simp add: well_formed_blank)
  have v: "vertex_in_buffer ?r ?v0" "vertex_in_buffer ?r ?v1" "vertex_in_buffer ?r ?v2"
    using corner_in_buffer [of ?r 1] by simp_all
  have a: "cross2 (xy ?v0) (xy ?v1) (xy ?v2) \<noteq> 0" by (simp add: corner_area)
  have t: "texcoord_unit ?t0" "texcoord_unit ?t1" "texcoord_unit ?t2"
    by (simp_all add: texcoord_unit_def)
  have nu: "\<not> (fst ?t0 = 1 \<and> fst ?t1 = 1 \<and> fst ?t2 = 1)"
    and nv: "\<not> (snd ?t0 = 0 \<and> snd ?t1 = 0 \<and> snd ?t2 = 0)" by simp_all
  have p: "(0::int) < 2" by simp
  have si: "strictly_inside (xy ?v0) (xy ?v1) (xy ?v2) (real_of_int 1, real_of_int 1)"
    by (rule corner_inside)
  have so: "strictly_outside (xy ?v0) (xy ?v1) (xy ?v2) (real_of_int 3, real_of_int 3)"
    by (rule corner_outside)
  have b1: "in_buffer ?r 1 1" and b3: "in_buffer ?r 3 3" by (simp_all add: in_buffer_def)
  have d1: "readDepth ?r 1 1 = Some NegInfinity"
    and d3: "readDepth ?r 3 3 = Some NegInfinity"
    and p3: "readPixel ?r 3 3 = (0, 0, 0, 255)"
    using b1 b3 by (simp_all add: readDepth_blank readPixel_blank)
  have nd: "\<not> num_le (tri_z barycentric ?v0 ?v1 ?v2 1 1) (readDepth ?r 1 1)"
    unfolding d1 by simp
  note th1 = triangle_white [OF w v a p p, where i = 1 and j = 1 and ?t0.0 = ?t0
      and ?t1.0 = ?t1 and ?t2.0 = ?t2]
  note th3 = triangle_white [OF w v a p p, where i = 3 and j = 3 and ?t0.0 = ?t0
      and ?t1.0 = ?t1 and ?t2.0 = ?t2]
  note s = th1 [THEN conjunct2, THEN conjunct1, THEN mp,
      OF conjI [OF si conjI [OF t(1) conjI [OF t(2) conjI [OF t(3) conjI [OF nu nv]]]]]]
  have s0: "0 \<le> tri_sample barycentric ?v0 ?v1 ?v2 ?t0 ?t1 ?t2 ?tex 1 1"
    and s1: "tri_sample barycentric ?v0 ?v1 ?v2 ?t0 ?t1 ?t2 ?tex 1 1 < 2 * 2"
    using s by simp_all
  have c1: "readPixel (triangle ?r ?v0 ?v1 ?v2 ?t0 ?t1 ?t2 1 ?tex) 1 1 = (255, 255, 255, 255)"
    using th1 [THEN conjunct1, THEN mp, OF conjI [OF si conjI [OF nd conjI [OF s0 s1]]]] by simp
  have c3: "readPixel (triangle ?r ?v0 ?v1 ?v2 ?t0 ?t1 ?t2 1 ?tex) 3 3 = (0, 0, 0, 255)"
    and c4: "readDepth (triangle ?r ?v0 ?v1 ?v2 ?t0 ?t1 ?t2 1 ?tex) 3 3 = Some NegInfinity"
    using th3 [THEN conjunct2, THEN conjunct2, THEN mp, OF conjI [OF b3 so]] p3 d3 by simp_all
  show ?thesis
    using w v a t si d1 s0 s1 c1 b3 so c3 c4 by (simp only: simp_thms)
qed

text \<open>
  C1 as stated fails, in two ways. It speaks of every draw call, whatever was drawn
  before: on a 4 by 4 renderer a triangle at depth 1 with a texture of zero bytes is
  drawn first; the same triangle at depth 0, with intensity 1 and a uniform white
  texture, is drawn next; the pixel \<open>(1, 1)\<close> lies strictly inside, yet the depth test
  rejects it and it keeps the bytes of the first draw. And it speaks of every texture
  coordinate: on a fresh 4 by 4 renderer the triangle is drawn with a uniform white 1 by
  1 texture and the texture coordinates \<open>(1 / 2, 0)\<close> at all three vertices; the
  sample of the pixel \<open>(1, 1)\<close> is taken at the row \<open>(1 - 0) * 1 = 1\<close>, the index 1,
  outside the one texel of the texture, and the pixel is written with zero bytes.
\<close>

theorem triangle_white_counterexample:
  "vertex_in_buffer (blank 4 4) (0, 0, 0) \<and> vertex_in_buffer (blank 4 4) (3, 0, 0)
   \<and> vertex_in_buffer (blank 4 4) (0, 3, 0)
   \<and> cross2 (xy (0, 0, 0)) (xy (3, 0, 0)) (xy (0, 3, 0)) = 9
   \<and> strictly_inside (xy (0, 0, 0)) (xy (3, 0, 0)) (xy (0, 3, 0)) (real_of_int 1, real_of_int 1)
   \<and> readPixel
        (triangle
          (triangle (blank 4 4) (0, 0, 1) (3, 0, 1) (0, 3, 1)
             (1 / 2, 1 / 2) (1 / 2, 1 / 2) (1 / 2, 1 / 2) 1 (uniform_texture 1 1 0))
          (0, 0, 0) (3, 0, 0) (0, 3, 0)
          (1 / 2, 1 / 2) (1 / 2, 1 / 2) (1 / 2, 1 / 2) 1 (uniform_texture 1 1 255)) 1 1 =
       (0, 0, 0, 0)
   \<and> readDepth (blank 4 4) 1 1 = Some NegInfinity
   \<and> tri_sample barycentric (0, 0, 0) (3, 0, 0) (0, 3, 0) (1 / 2, 0) (1 / 2, 0) (1 / 2, 0)
        (uniform_texture 1 1 255) 1 1 = 1
   \<and> readPixel
        (triangle (blank 4 4) (0, 0, 0) (3, 0, 0) (0, 3, 0)
           (1 / 2, 0) (1 / 2, 0) (1 / 2, 0) 1 (uniform_texture 1 1 255)) 1 1 =
       (0, 0, 0, 0)"
proof -
  let ?r = "blank 4 4"
  let ?v0 = "(0, 0, 1) :: Vector3" and ?v1 = "(3, 0, 1) :: Vector3" and ?v2 = "(0, 3, 1) :: Vector3"
  let ?u0 = "(0, 0, 0) :: Vector3" and ?u1 = "(3, 0, 0) :: Vector3" and ?u2 = "(0, 3, 0) :: Vector3"
  let ?t = "(1 / 2, 1 / 2) :: Vector2"
  let ?q = "(1 / 2, 0) :: Vector2"
  let ?r1 = "triangle_with barycentric ?r ?v0 ?v1 ?v2 ?t ?t ?t 1 (uniform_texture 1 1 0)"
  have w: "well_formed ?r" by (simp add: well_formed_blank)
  have v: "vertex_in_buffer ?r ?v0" "vertex_in_buffer ?r ?v1" "vertex_in_buffer ?r ?v2"
    using corner_in_buffer [of ?r 1] by simp_all
  have u: "vertex_in_buffer ?r ?u0" "vertex_in_buffer ?r ?u1" "vertex_in_buffer ?r ?u2"
    using corner_in_buffer [of ?r 0] by simp_all
  have b1: "in_buffer ?r 1 1" by (simp add: in_buffer_def)
  have d1: "readDepth ?r 1 1 = Some NegInfinity" using b1 by (simp add: readDepth_blank)
  have ins: "tri_inside barycentric ?v0 ?v1 ?v2 1 1"
    by (rule strictly_inside_tri_inside [OF corner_inside])
  have a: "cross2 (xy ?v0) (xy ?v1) (xy ?v2) \<noteq> 0" by (simp add: corner_area)
  have mem: "(1, 1) \<in> set (bbox ?v0 ?v1 ?v2)" by (rule inside_in_bbox [OF a ins])
  have acc: "tri_accepts barycentric ?r ?v0 ?v1 ?v2 1 1"
    using ins by (simp add: tri_accepts_def d1)
  have p: "(0::int) < 1" by simp
  have col: "bytes (tri_color barycentric ?v0 ?v1 ?v2 ?t ?t ?t 1 (uniform_texture 1 1 0) 1 1) =
               (0, 0, 0, 0)"
    unfolding tri_color_uniform [OF a ins texcoord_ok_half texcoord_ok_half texcoord_ok_half p p]
    by simp
  note e1 = triangle_effect [OF w bbox_in_buffer [OF v] b1, of barycentric ?t ?t ?t 1
      "uniform_texture 1 1 0"]
  have first_px: "readPixel ?r1 1 1 = (0, 0, 0, 0)"
    using e1 mem acc col by simp
  have first_z: "readDepth ?r1 1 1 = Some (Finite 1)"
    using e1 mem acc by (simp add: corner_z)
  have w1: "well_formed ?r1" using w by simp
  have wh: "width ?r1 = 4" "height ?r1 = 4" by (simp_all add: triangle_with_frame)
  have u1: "vertex_in_buffer ?r1 ?u0" "vertex_in_buffer ?r1 ?u1" "vertex_in_buffer ?r1 ?u2"
    using corner_in_buffer [OF wh, of 0] by simp_all
  have b1': "in_buffer ?r1 1 1" by (simp add: in_buffer_def wh)
  have rej: "\<not> tri_accepts barycentric ?r1 ?u0 ?u1 ?u2 1 1"
    by (simp add: tri_accepts_def first_z corner_z)
  note e2 = triangle_effect [OF w1 bbox_in_buffer [OF u1] b1', of barycentric ?t ?t ?t 1
      "uniform_texture 1 1 255"]
  have "readPixel (triangle_with barycentric ?r1 ?u0 ?u1 ?u2 ?t ?t ?t 1 (uniform_texture 1 1 255)) 1 1 =
          (0, 0, 0, 0)"
    using e2 rej first_px by simp
  then have r: "readPixel (triangle (triangle ?r ?v0 ?v1 ?v2 ?t ?t ?t 1 (uniform_texture 1 1 0))
                  ?u0 ?u1 ?u2 ?t ?t ?t 1 (uniform_texture 1 1 255)) 1 1 = (0, 0, 0, 0)"
    by (simp add: triangle_def)
  have ins0: "tri_inside barycentric ?u0 ?u1 ?u2 1 1"
    by (rule strictly_inside_tri_inside [OF corner_inside])
  have a0: "cross2 (xy ?u0) (xy ?u1) (xy ?u2) \<noteq> 0" by (simp add: corner_area)
  have mem0: "(1, 1) \<in> set (bbox ?u0 ?u1 ?u2)" by (rule inside_in_bbox [OF a0 ins0])
  have acc0: "tri_accepts barycentric ?r ?u0 ?u1 ?u2 1 1"
    using ins0 by (simp add: tri_accepts_def d1)
  have smp: "tri_sample barycentric ?u0 ?u1 ?u2 ?q ?q ?q (uniform_texture 1 1 255) 1 1 = 1"
    by (simp add: tri_sample_def corner_weights Let_def uniform_texture_def trunc_def)
  have col0: "bytes (tri_color barycentric ?u0 ?u1 ?u2 ?q ?q ?q 1 (uniform_texture 1 1 255) 1 1) =
                (0, 0, 0, 0)"
    by (simp add: tri_color_def corner_weights Let_def getPixel_def uniform_texture_def
        ta_load_def trunc_def BYTES_PER_PIXEL_def ToUint8Clamp_def)
  note e0 = triangle_effect [OF w bbox_in_buffer [OF u] b1, of barycentric ?q ?q ?q 1
      "uniform_texture 1 1 255"]
  have r0: "readPixel (triangle ?r ?u0 ?u1 ?u2 ?q ?q ?q 1 (uniform_texture 1 1 255)) 1 1 =
              (0, 0, 0, 0)"
    using e0 mem0 acc0 col0 by (simp add: triangle_def)
  show ?thesis
    using u corner_area [of 0 0 0] corner_inside [of 0 0 0] r d1 smp r0
    by (simp only: simp_thms)
qed


lemma corner_first_draw:
  "readPixel (triangle_with barycentric (blank 4 4) (0, 0, 1) (3, 0, 1) (0, 3, 1)
       (1 / 2, 1 / 2) (1 / 2, 1 / 2) (1 / 2, 1 / 2) k (uniform_texture 1 1 b)) 1 1 =
     bytes (Some (real b * k), Some (real b * k), Some (real b * k), Some (real b))
   \<and> readDepth (triangle_with barycentric (blank 4 4) (0, 0, 1) (3, 0, 1) (0, 3, 1)
       (1 / 2, 1 / 2) (1 / 2, 1 / 2) (1 / 2, 1 / 2) k (uniform_texture 1 1 b)) 1 1 =
     Some (Finite 1)"
proof -
  let ?r = "blank 4 4"
  let ?v0 = "(0, 0, 1) :: Vector3" and ?v1 = "(3, 0, 1) :: Vector3" and ?v2 = "(0, 3, 1) :: Vector3"
  let ?t = "(1 / 2, 1 / 2) :: Vector2"
  have w: "well_formed ?r" by (simp add: well_formed_blank)
  have v: "vertex_in_buffer ?r ?v0" "vertex_in_buffer ?r ?v1" "vertex_in_buffer ?r ?v2"
    using corner_in_buffer [of ?r 1] by simp_all
  have b1: "in_buffer ?r 1 1" by (simp add: in_buffer_def)
  have d1: "readDepth ?r 1 1 = Some NegInfinity" using b1 by (simp add: readDepth_blank)
  have ins: "tri_inside barycentric ?v0 ?v1 ?v2 1 1"
    by (rule strictly_inside_tri_inside [OF corner_inside])
  have a: "cross2 (xy ?v0) (xy ?v1) (xy ?v2) \<noteq> 0" by (simp add: corner_area)
  have mem: "(1, 1) \<in> set (bbox ?v0 ?v1 ?v2)" by (rule inside_in_bbox [OF a ins])
  have acc: "tri_accepts barycentric ?r ?v0 ?v1 ?v2 1 1"
    using ins by (simp add: tri_accepts_def d1)
  have p: "(0::int) < 1" by simp
  note col = tri_color_uniform [OF a ins texcoord_ok_half texcoord_ok_half texcoord_ok_half p p,
      of k b]
  note e1 = triangle_effect [OF w bbox_in_buffer [OF v] b1, of barycentric ?t ?t ?t k
      "uniform_texture 1 1 b"]
  show ?thesis
    using e1 mem acc col by (simp add: corner_z)
qed

text \<open>
  C3. At a pixel whose interpolated depth is less than or equal to its depth entry the
  loop body changes nothing, neither buffer. Consequently a triangle drawn a second time
  with the same vertices, whatever the texture, the texture coordinates and the intensity
  of the second draw, leaves the renderer exactly as the first draw left it: every pixel
  keeps the first draw's colour.
\<close>

theorem depth_tie_keeps_first:
  "(num_le (tri_z barycentric v0 v1 v2 x y) (readDepth r x y) \<longrightarrow>
      triangle_pixel barycentric r v0 v1 v2 t0 t1 t2 k tex x y = r)
   \<and> triangle (triangle r v0 v1 v2 t0 t1 t2 k tex) v0 v1 v2 t0' t1' t2' k' tex' =
       triangle r v0 v1 v2 t0 t1 t2 k tex"
proof (intro conjI impI)
  assume "num_le (tri_z barycentric v0 v1 v2 x y) (readDepth r x y)"
  then have "\<not> tri_accepts barycentric r v0 v1 v2 x y" by (simp add: tri_accepts_def)
  then show "triangle_pixel barycentric r v0 v1 v2 t0 t1 t2 k tex x y = r"
    by (rule triangle_pixel_rejected)
next
  show "triangle (triangle r v0 v1 v2 t0 t1 t2 k tex) v0 v1 v2 t0' t1' t2' k' tex' =
          triangle r v0 v1 v2 t0 t1 t2 k tex"
    unfolding triangle_def by (rule triangle_twice)
qed

theorem depth_tie_keeps_first_witness:
  "num_le (tri_z barycentric (0, 0, 1) (3, 0, 1) (0, 3, 1) 1 1)
     (readDepth (triangle (blank 4 4) (0, 0, 1) (3, 0, 1) (0, 3, 1)
        (1 / 2, 1 / 2) (1 / 2, 1 / 2) (1 / 2, 1 / 2) 1 (uniform_texture 1 1 0)) 1 1)
   \<and> triangle_pixel barycentric
        (triangle (blank 4 4) (0, 0, 1) (3, 0, 1) (0, 3, 1)
           (1 / 2, 1 / 2) (1 / 2, 1 / 2) (1 / 2, 1 / 2) 1 (uniform_texture 1 1 0))
        (0, 0, 1) (3, 0, 1) (0, 3, 1)
        (1 / 2, 1 / 2) (1 / 2, 1 / 2) (1 / 2, 1 / 2) 1 (uniform_texture 1 1 255) 1 1 =
      triangle (blank 4 4) (0, 0, 1) (3, 0, 1) (0, 3, 1)
        (1 / 2, 1 / 2) (1 / 2, 1 / 2) (1 / 2, 1 / 2) 1 (uniform_texture 1 1 0)
   \<and> readPixel
        (triangle
          (triangle (blank 4 4) (0, 0, 1) (3, 0, 1) (0, 3, 1)
             (1 / 2, 1 / 2) (1 / 2, 1 / 2) (1 / 2, 1 / 2) 1 (uniform_texture 1 1 0))
          (0, 0, 1) (3, 0, 1) (0, 3, 1)
          (1 / 2, 1 / 2) (1 / 2, 1 / 2) (1 / 2, 1 / 2) 1 (uniform_texture 1 1 255)) 1 1 =
      (0, 0, 0, 0)"
proof -
  let ?v0 = "(0, 0, 1) :: Vector3" and ?v1 = "(3, 0, 1) :: Vector3" and ?v2 = "(0, 3, 1) :: Vector3"
  let ?t = "(1 / 2, 1 / 2) :: Vector2"
  let ?r1 = "triangle (blank 4 4) ?v0 ?v1 ?v2 ?t ?t ?t 1 (uniform_texture 1 1 0)"
  have px: "readPixel ?r1 1 1 = (0, 0, 0, 0)" and z: "readDepth ?r1 1 1 = Some (Finite 1)"
    using corner_first_draw [of 1 0] by (simp_all add: triangle_def)
  have h: "num_le (tri_z barycentric ?v0 ?v1 ?v2 1 1) (readDepth ?r1 1 1)"
    by (simp add: z corner_z)
  have a: "triangle_pixel barycentric ?r1 ?v0 ?v1 ?v2 ?t ?t ?t 1 (uniform_texture 1 1 255) 1 1 = ?r1"
    by (rule depth_tie_keeps_first [THEN conjunct1, THEN mp, OF h])
  have "triangle ?r1 ?v0 ?v1 ?v2 ?t ?t ?t 1 (uniform_texture 1 1 255) = ?r1"
    by (rule depth_tie_keeps_first [THEN conjunct2])
  then have b: "readPixel (triangle ?r1 ?v0 ?v1 ?v2 ?t ?t ?t 1 (uniform_texture 1 1 255)) 1 1 =
             (0, 0, 0, 0)"
    using px by simp
  show ?thesis using h a b by (simp only: simp_thms)
qed


text \<open>
  C5. A triangle whose three vertices are collinear (zero signed area) is drawn with an
  evaluator that, for this triangle, returns a weight vector with a negative component at
  every query point. Then the draw call leaves the renderer as it was: no pixel is
  written and no depth entry changes.
\<close>

theorem degenerate_draws_nothing:
  assumes "cross2 (xy v0) (xy v1) (xy v2) = 0"
    and "\<forall>p. fst (bary v0 v1 v2 p) < 0 \<or> fst (snd (bary v0 v1 v2 p)) < 0
           \<or> snd (snd (bary v0 v1 v2 p)) < 0"
  shows "triangle_with bary r v0 v1 v2 t0 t1 t2 k tex = r"
proof -
  have "\<not> tri_accepts bary r v0 v1 v2 x y" for x y
    using assms(2) [rule_format, of "(real_of_int x, real_of_int y)"]
    by (auto simp: tri_accepts_def tri_inside_def Let_def)
  then show ?thesis
    unfolding triangle_with_fold by (intro fold_all_rejected) simp
qed

theorem degenerate_draws_nothing_witness:
  "cross2 (xy (0, 0, 0)) (xy (1, 1, 0)) (xy (2, 2, 0)) = 0
   \<and> barycentric (0, 0, 0) (1, 1, 0) (2, 2, 0) (1, 1) = (- 1, 1, 1)
   \<and> triangle (blank 4 4) (0, 0, 0) (1, 1, 0) (2, 2, 0)
        (1 / 2, 1 / 2) (1 / 2, 1 / 2) (1 / 2, 1 / 2) 1 (uniform_texture 1 1 255) = blank 4 4"
proof -
  have z: "cross2 (xy (0, 0, 0)) (xy (1, 1, 0)) (xy (2, 2, 0)) = 0"
    by (simp add: cross2_def xy_def)
  have bc: "barycentric (0, 0, 0) (1, 1, 0) (2, 2, 0) p = (- 1, 1, 1)" for p
    by (rule barycentric_degenerate [OF z])
  have neg: "\<forall>p. fst (barycentric (0, 0, 0) (1, 1, 0) (2, 2, 0) p) < 0
               \<or> fst (snd (barycentric (0, 0, 0) (1, 1, 0) (2, 2, 0) p)) < 0
               \<or> snd (snd (barycentric (0, 0, 0) (1, 1, 0) (2, 2, 0) p)) < 0"
    by (simp add: bc)
  have "triangle (blank 4 4) (0, 0, 0) (1, 1, 0) (2, 2, 0)
          (1 / 2, 1 / 2) (1 / 2, 1 / 2) (1 / 2, 1 / 2) 1 (uniform_texture 1 1 255) = blank 4 4"
    unfolding triangle_def by (rule degenerate_draws_nothing [where bary = barycentric, OF z neg])
  with z bc show ?thesis by simp
qed




lemma pixel_out_of_range:
  assumes "well_formed r"
    and "trunc (snd v) * width r + trunc (fst v) < 0
         \<or> width r * height r \<le> trunc (snd v) * width r + trunc (fst v)"
  shows "idata (imageData (pixel r v c)) = idata (imageData r)"
proof -
  obtain cr cg cb ca where c: "c = (cr, cg, cb, ca)" using prod_cases4 by blast
  define n where "n = trunc (snd v) * width r + trunc (fst v)"
  have len: "int (length (idata (imageData r))) = width r * height r * 4"
    using assms(1) by (simp add: well_formed_def)
  have out: "n * 4 + 3 < 0 \<or> int (length (idata (imageData r))) \<le> n * 4"
    using assms(2) unfolding len n_def [symmetric] by linarith
  have st: "ta_store d (n * 4 + k) x = d"
    if "length d = length (idata (imageData r))" "0 \<le> k" "k \<le> 3" for d k x
    using out that by (auto simp: ta_store_def)
  have "pixel_loop (idata (imageData r)) (n * 4) (cr, cg, cb, ca) 0 = idata (imageData r)"
    unfolding pixel_loop_unroll
    using st [of "idata (imageData r)" 0] st [of "idata (imageData r)" 1]
      st [of "idata (imageData r)" 2] st [of "idata (imageData r)" 3]
    by simp
  then show ?thesis
    by (simp add: pixel_def Let_def c n_def BYTES_PER_PIXEL_def)
qed

lemma px_step:
  assumes "0 \<le> n" and "n * 4 + 3 < int (length (idata (imageData r)))"
  shows "px (triangle_pixel bary r v0 v1 v2 t0 t1 t2 k tex x y) n =
           (if tri_accepts bary r v0 v1 v2 x y \<and> n = y * width r + x
            then bytes (tri_color bary v0 v1 v2 t0 t1 t2 k tex x y)
            else px r n)"
proof (cases "tri_accepts bary r v0 v1 v2 x y")
  case False
  then show ?thesis by (simp add: triangle_pixel_rejected)
next
  case True
  let ?r = "r\<lparr>zBuffer := arr_set (zBuffer r) (y * width r + x)
               (Finite (tri_z bary v0 v1 v2 x y))\<rparr>"
  have l: "n * 4 + 3 < int (length (idata (imageData ?r)))" using assms(2) by simp
  show ?thesis
    using True px_pixel [OF assms(1) l, of "(real_of_int x, real_of_int y)"
        "tri_color bary v0 v1 v2 t0 t1 t2 k tex x y"]
    by (simp add: triangle_pixel_alt)
qed

lemma alength_step:
  "alength (zBuffer (triangle_pixel bary r v0 v1 v2 t0 t1 t2 k tex x y)) =
     (if tri_accepts bary r v0 v1 v2 x y \<and> 0 \<le> y * width r + x
      then max (alength (zBuffer r)) (nat (y * width r + x) + 1)
      else alength (zBuffer r))"
  by (simp add: triangle_pixel_alt arr_set_def)

lemma step_out_of_range:
  assumes "well_formed r" and "\<not> index_in_range r x y"
  shows "idata (imageData (triangle_pixel bary r v0 v1 v2 t0 t1 t2 k tex x y)) =
           idata (imageData r)"
proof (cases "tri_accepts bary r v0 v1 v2 x y")
  case False
  then show ?thesis by (simp add: triangle_pixel_rejected)
next
  case True
  let ?r = "r\<lparr>zBuffer := arr_set (zBuffer r) (y * width r + x)
               (Finite (tri_z bary v0 v1 v2 x y))\<rparr>"
  have w: "well_formed ?r" using assms(1) by simp
  have o: "trunc (snd (real_of_int x, real_of_int y)) * width ?r
             + trunc (fst (real_of_int x, real_of_int y)) < 0
           \<or> width ?r * height ?r \<le> trunc (snd (real_of_int x, real_of_int y)) * width ?r
             + trunc (fst (real_of_int x, real_of_int y))"
    using assms(2) by (auto simp: index_in_range_def)
  have "idata (imageData (pixel ?r (real_of_int x, real_of_int y)
          (tri_color bary v0 v1 v2 t0 t1 t2 k tex x y))) = idata (imageData ?r)"
    by (rule pixel_out_of_range [OF w o])
  then show ?thesis using True by (simp add: triangle_pixel_alt)
qed

text \<open>
  C2, as the code has it. The loop body checks no bounds: what keeps a write out of the
  buffer is the typed array, which ignores an index outside its length. So a computed
  pixel \<open>(x, y)\<close> whose row-major index \<open>y * W + x\<close> lies outside \<open>[0, W * H)\<close>
  changes no byte of the pixel buffer and none of the \<open>W * H\<close> depth entries. A computed
  pixel whose index lies inside that range, as that of every in-bounds pixel does, is
  processed at that index: when it passes both tests the four bytes and the depth entry
  at the index are written. And the draw call is the sequence of the loop bodies over the
  whole bounding box: no pixel ends it early.
\<close>

theorem out_of_range_pixel:
  assumes "well_formed r"
  shows "(\<not> index_in_range r x y \<longrightarrow>
            idata (imageData (triangle_pixel bary r v0 v1 v2 t0 t1 t2 k tex x y)) =
              idata (imageData r)
            \<and> (0 \<le> n \<and> n < width r * height r \<longrightarrow>
                 arr_get (zBuffer (triangle_pixel bary r v0 v1 v2 t0 t1 t2 k tex x y)) n =
                   arr_get (zBuffer r) n))
         \<and> (index_in_range r x y \<and> tri_accepts bary r v0 v1 v2 x y \<longrightarrow>
              px (triangle_pixel bary r v0 v1 v2 t0 t1 t2 k tex x y) (y * width r + x) =
                bytes (tri_color bary v0 v1 v2 t0 t1 t2 k tex x y)
              \<and> arr_get (zBuffer (triangle_pixel bary r v0 v1 v2 t0 t1 t2 k tex x y))
                   (y * width r + x) = Some (Finite (tri_z bary v0 v1 v2 x y)))
         \<and> triangle_with bary r v0 v1 v2 t0 t1 t2 k tex =
             fold (\<lambda>p s. triangle_pixel bary s v0 v1 v2 t0 t1 t2 k tex (fst p) (snd p))
               (bbox v0 v1 v2) r"
proof (intro conjI impI)
  assume o: "\<not> index_in_range r x y"
  show "idata (imageData (triangle_pixel bary r v0 v1 v2 t0 t1 t2 k tex x y)) =
          idata (imageData r)"
    by (rule step_out_of_range [OF assms o])
next
  assume o: "\<not> index_in_range r x y" and n: "0 \<le> n \<and> n < width r * height r"
  then have "n \<noteq> y * width r + x" by (auto simp: index_in_range_def)
  then show "arr_get (zBuffer (triangle_pixel bary r v0 v1 v2 t0 t1 t2 k tex x y)) n =
               arr_get (zBuffer r) n"
    by (simp add: zBuffer_triangle_pixel)
next
  assume a: "index_in_range r x y \<and> tri_accepts bary r v0 v1 v2 x y"
  have len: "int (length (idata (imageData r))) = width r * height r * 4"
    using assms by (simp add: well_formed_def)
  have r: "0 \<le> y * width r + x" "(y * width r + x) * 4 + 3 < int (length (idata (imageData r)))"
    using a unfolding len by (simp_all add: index_in_range_def)
  show "px (triangle_pixel bary r v0 v1 v2 t0 t1 t2 k tex x y) (y * width r + x) =
          bytes (tri_color bary v0 v1 v2 t0 t1 t2 k tex x y)"
    using a by (simp add: px_step [OF r])
next
  assume a: "index_in_range r x y \<and> tri_accepts bary r v0 v1 v2 x y"
  then show "arr_get (zBuffer (triangle_pixel bary r v0 v1 v2 t0 t1 t2 k tex x y))
               (y * width r + x) = Some (Finite (tri_z bary v0 v1 v2 x y))"
    by (simp add: zBuffer_triangle_pixel)
next
  show "triangle_with bary r v0 v1 v2 t0 t1 t2 k tex =
          fold (\<lambda>p s. triangle_pixel bary s v0 v1 v2 t0 t1 t2 k tex (fst p) (snd p))
            (bbox v0 v1 v2) r"
    by (rule triangle_with_fold)
qed


lemma length_blank:
  "0 \<le> w * h \<Longrightarrow> int (length (idata (imageData (blank w h)))) = w * h * 4"
  by (simp add: blank_def length_concat sum_list_replicate)

lemma zBuffer_blank:
  "arr_get (zBuffer (blank w h)) n = (if 0 \<le> n \<and> n < w * h then Some NegInfinity else None)"
  by (simp add: blank_def arr_get_def)

lemma alength_blank: "alength (zBuffer (blank w h)) = nat (w * h)"
  by (simp add: blank_def)

lemma edge_bbox: "bbox (1, 0, z) (2, 0, z') (2, 1, z'') = [(1, 0), (1, 1), (2, 0), (2, 1)]"
  by (simp add: bbox_def min3_def max3_def trunc_def upto.simps)

lemma edge_area: "cross2 (xy (1, 0, z)) (xy (2, 0, z')) (xy (2, 1, z'')) = 1"
  by (simp add: cross2_def xy_def)

lemma edge_inside:
  "tri_inside barycentric (1, 0, z) (2, 0, z') (2, 1, z'') 1 0"
  "\<not> tri_inside barycentric (1, 0, z) (2, 0, z') (2, 1, z'') 1 1"
  "tri_inside barycentric (1, 0, z) (2, 0, z') (2, 1, z'') 2 0"
  "tri_inside barycentric (1, 0, z) (2, 0, z') (2, 1, z'') 2 1"
  by (simp_all add: tri_inside_def barycentric_def cross2_def xy_def Let_def)

lemma edge_z:
  "tri_z barycentric (1, 0, z) (2, 0, z) (2, 1, z) 1 0 = z"
  "tri_z barycentric (1, 0, z) (2, 0, z) (2, 1, z) 2 0 = z"
  "tri_z barycentric (1, 0, z) (2, 0, z) (2, 1, z) 2 1 = z"
  by (simp_all add: tri_z_def barycentric_def cross2_def xy_def Let_def)

lemma edge_color:
  "bytes (tri_color barycentric (1, 0, 1) (2, 0, 1) (2, 1, 1)
      (1 / 2, 1 / 2) (1 / 2, 1 / 2) (1 / 2, 1 / 2) 1 (uniform_texture 1 1 255) 2 0) =
   (255, 255, 255, 255)"
proof -
  have a: "cross2 (xy (1, 0, 1)) (xy (2, 0, 1)) (xy (2, 1, 1)) \<noteq> 0" by (simp add: edge_area)
  have p: "(0::int) < 1" by simp
  show ?thesis
    unfolding tri_color_uniform [OF a edge_inside(3) texcoord_ok_half texcoord_ok_half
        texcoord_ok_half p p]
    by (simp add: ToUint8Clamp_def)
qed

lemma edge_accepts_blank:
  "tri_accepts barycentric (blank 2 2) (1, 0, 1) (2, 0, 1) (2, 1, 1) 2 0"
  "tri_accepts barycentric (blank 2 2) (1, 0, 1) (2, 0, 1) (2, 1, 1) 2 1"
  by (simp_all add: tri_accepts_def edge_inside readDepth_def zBuffer_blank)

theorem out_of_range_pixel_witness:
  "well_formed (blank 2 2)
   \<and> \<not> index_in_range (blank 2 2) 2 1
   \<and> tri_accepts barycentric (blank 2 2) (1, 0, 1) (2, 0, 1) (2, 1, 1) 2 1
   \<and> idata (imageData (triangle_pixel barycentric (blank 2 2) (1, 0, 1) (2, 0, 1) (2, 1, 1)
        (1 / 2, 1 / 2) (1 / 2, 1 / 2) (1 / 2, 1 / 2) 1 (uniform_texture 1 1 255) 2 1)) =
       idata (imageData (blank 2 2))
   \<and> arr_get (zBuffer (triangle_pixel barycentric (blank 2 2) (1, 0, 1) (2, 0, 1) (2, 1, 1)
        (1 / 2, 1 / 2) (1 / 2, 1 / 2) (1 / 2, 1 / 2) 1 (uniform_texture 1 1 255) 2 1)) 3 =
       Some NegInfinity
   \<and> index_in_range (blank 2 2) 1 0
   \<and> px (triangle_pixel barycentric (blank 2 2) (1, 0, 1) (2, 0, 1) (2, 1, 1)
        (1 / 2, 1 / 2) (1 / 2, 1 / 2) (1 / 2, 1 / 2) 1 (uniform_texture 1 1 255) 1 0) 1 =
       bytes (tri_color barycentric (1, 0, 1) (2, 0, 1) (2, 1, 1)
        (1 / 2, 1 / 2) (1 / 2, 1 / 2) (1 / 2, 1 / 2) 1 (uniform_texture 1 1 255) 1 0)"
proof -
  let ?v0 = "(1, 0, 1) :: Vector3" and ?v1 = "(2, 0, 1) :: Vector3" and ?v2 = "(2, 1, 1) :: Vector3"
  let ?t = "(1 / 2, 1 / 2) :: Vector2"
  let ?tex = "uniform_texture 1 1 255"
  have w: "well_formed (blank 2 2)" by (simp add: well_formed_blank)
  have o: "\<not> index_in_range (blank 2 2) 2 1" by (simp add: index_in_range_def)
  have i: "index_in_range (blank 2 2) 1 0" by (simp add: index_in_range_def)
  have acc: "tri_accepts barycentric (blank 2 2) ?v0 ?v1 ?v2 1 0"
    by (simp add: tri_accepts_def edge_inside readDepth_def zBuffer_blank)
  have n: "(0::int) \<le> 3 \<and> 3 < width (blank 2 2) * height (blank 2 2)" by simp
  note th = out_of_range_pixel [OF w, where bary = barycentric]
  have c1: "idata (imageData (triangle_pixel barycentric (blank 2 2) ?v0 ?v1 ?v2 ?t ?t ?t 1 ?tex 2 1)) =
              idata (imageData (blank 2 2))"
    by (rule th [THEN conjunct1, THEN mp, OF o, THEN conjunct1])
  have "arr_get (zBuffer (triangle_pixel barycentric (blank 2 2) ?v0 ?v1 ?v2 ?t ?t ?t 1 ?tex 2 1)) 3 =
          arr_get (zBuffer (blank 2 2)) 3"
    by (rule th [THEN conjunct1, THEN mp, OF o, THEN conjunct2, THEN mp, OF n])
  then have c2: "arr_get (zBuffer (triangle_pixel barycentric (blank 2 2) ?v0 ?v1 ?v2 ?t ?t ?t 1 ?tex
                    2 1)) 3 = Some NegInfinity"
    by (simp add: zBuffer_blank)
  have "px (triangle_pixel barycentric (blank 2 2) ?v0 ?v1 ?v2 ?t ?t ?t 1 ?tex 1 0)
          (0 * width (blank 2 2) + 1) =
        bytes (tri_color barycentric ?v0 ?v1 ?v2 ?t ?t ?t 1 ?tex 1 0)"
    by (rule th [THEN conjunct2, THEN conjunct1, THEN mp, OF conjI [OF i acc], THEN conjunct1])
  then have c3: "px (triangle_pixel barycentric (blank 2 2) ?v0 ?v1 ?v2 ?t ?t ?t 1 ?tex 1 0) 1 =
        bytes (tri_color barycentric ?v0 ?v1 ?v2 ?t ?t ?t 1 ?tex 1 0)"
    by simp
  show ?thesis using w o edge_accepts_blank(2) c1 c2 i c3 by (simp only: simp_thms)
qed

text \<open>
  C2 as stated fails. On a 2 by 2 renderer the triangle with the vertices \<open>(1, 0)\<close>,
  \<open>(2, 0)\<close>, \<open>(2, 1)\<close> has the bounding box \<open>[1, 2] \<times> [0, 1]\<close>. Its pixel
  \<open>(2, 0)\<close> is outside the buffer and passes both tests; its index \<open>0 * 2 + 2\<close> is
  that of the pixel \<open>(0, 1)\<close>, which is not in the bounding box at all. The loop body
  at \<open>(2, 0)\<close> writes four bytes and a depth entry there, and after the draw call the
  pixel \<open>(0, 1)\<close> is white with the depth 1.
\<close>

theorem out_of_bounds_write_counterexample:
  "\<not> in_buffer (blank 2 2) 2 0
   \<and> bbox (1, 0, 1) (2, 0, 1) (2, 1, 1) = [(1, 0), (1, 1), (2, 0), (2, 1)]
   \<and> tri_accepts barycentric (blank 2 2) (1, 0, 1) (2, 0, 1) (2, 1, 1) 2 0
   \<and> px (blank 2 2) 2 = (0, 0, 0, 255)
   \<and> px (triangle_pixel barycentric (blank 2 2) (1, 0, 1) (2, 0, 1) (2, 1, 1)
        (1 / 2, 1 / 2) (1 / 2, 1 / 2) (1 / 2, 1 / 2) 1 (uniform_texture 1 1 255) 2 0) 2 =
       (255, 255, 255, 255)
   \<and> arr_get (zBuffer (blank 2 2)) 2 = Some NegInfinity
   \<and> arr_get (zBuffer (triangle_pixel barycentric (blank 2 2) (1, 0, 1) (2, 0, 1) (2, 1, 1)
        (1 / 2, 1 / 2) (1 / 2, 1 / 2) (1 / 2, 1 / 2) 1 (uniform_texture 1 1 255) 2 0)) 2 =
       Some (Finite 1)
   \<and> readPixel (blank 2 2) 0 1 = (0, 0, 0, 255)
   \<and> readPixel (triangle (blank 2 2) (1, 0, 1) (2, 0, 1) (2, 1, 1)
        (1 / 2, 1 / 2) (1 / 2, 1 / 2) (1 / 2, 1 / 2) 1 (uniform_texture 1 1 255)) 0 1 =
       (255, 255, 255, 255)
   \<and> readDepth (triangle (blank 2 2) (1, 0, 1) (2, 0, 1) (2, 1, 1)
        (1 / 2, 1 / 2) (1 / 2, 1 / 2) (1 / 2, 1 / 2) 1 (uniform_texture 1 1 255)) 0 1 =
       Some (Finite 1)"
proof -
  let ?r = "blank 2 2"
  let ?v0 = "(1, 0, 1) :: Vector3" and ?v1 = "(2, 0, 1) :: Vector3" and ?v2 = "(2, 1, 1) :: Vector3"
  let ?t = "(1 / 2, 1 / 2) :: Vector2"
  let ?tex = "uniform_texture 1 1 255"
  let ?step = "\<lambda>s x y. triangle_pixel barycentric s ?v0 ?v1 ?v2 ?t ?t ?t 1 ?tex x y"
  let ?s1 = "?step ?r 1 0"
  let ?s2 = "?step ?s1 1 1"
  let ?s3 = "?step ?s2 2 0"
  let ?s4 = "?step ?s3 2 1"
  have nb: "\<not> in_buffer ?r 2 0" by (simp add: in_buffer_def)
  have len: "int (length (idata (imageData ?r))) = 16" using length_blank [of 2 2] by simp
  have r2: "(0::int) \<le> 2" "(2::int) * 4 + 3 < int (length (idata (imageData s)))"
    if "length (idata (imageData s)) = length (idata (imageData ?r))" for s
    using that len by simp_all
  have b1: "in_buffer ?r 0 1" by (simp add: in_buffer_def)
  have p0: "px ?r 2 = (0, 0, 0, 255)" by (simp add: px_blank)
  have rp0: "readPixel ?r 0 1 = (0, 0, 0, 255)" using b1 by (simp add: readPixel_blank)
  have z0: "arr_get (zBuffer ?r) 2 = Some NegInfinity" by (simp add: zBuffer_blank)
  have step_px: "px (?step ?r 2 0) 2 = (255, 255, 255, 255)"
    using px_step [OF r2 [of ?r], of barycentric ?v0 ?v1 ?v2 ?t ?t ?t 1 ?tex 2 0]
    by (simp add: edge_accepts_blank edge_color)
  have step_z: "arr_get (zBuffer (?step ?r 2 0)) 2 = Some (Finite 1)"
    by (simp add: zBuffer_triangle_pixel edge_accepts_blank edge_z)
  have z2: "arr_get (zBuffer ?s2) 2 = Some NegInfinity"
    by (simp add: zBuffer_triangle_pixel zBuffer_blank)
  have acc3: "tri_accepts barycentric ?s2 ?v0 ?v1 ?v2 2 0"
    using z2 by (simp add: tri_accepts_def edge_inside readDepth_def)
  have px3: "px ?s3 2 = (255, 255, 255, 255)"
    using px_step [OF r2 [of ?s2], of barycentric ?v0 ?v1 ?v2 ?t ?t ?t 1 ?tex 2 0] acc3
    by (simp add: edge_color)
  have z3: "arr_get (zBuffer ?s3) 2 = Some (Finite 1)"
    using acc3 by (simp add: zBuffer_triangle_pixel edge_z)
  have px4: "px ?s4 2 = (255, 255, 255, 255)"
    using px_step [OF r2 [of ?s3], of barycentric ?v0 ?v1 ?v2 ?t ?t ?t 1 ?tex 2 1] px3
    by simp
  have z4: "arr_get (zBuffer ?s4) 2 = Some (Finite 1)"
    using z3 by (simp add: zBuffer_triangle_pixel)
  have tri: "triangle ?r ?v0 ?v1 ?v2 ?t ?t ?t 1 ?tex = ?s4"
    by (simp add: triangle_def triangle_with_fold edge_bbox)
  have rp: "readPixel (triangle ?r ?v0 ?v1 ?v2 ?t ?t ?t 1 ?tex) 0 1 = (255, 255, 255, 255)"
    unfolding tri using px4 by (simp add: readPixel_def)
  have rd: "readDepth (triangle ?r ?v0 ?v1 ?v2 ?t ?t ?t 1 ?tex) 0 1 = Some (Finite 1)"
    unfolding tri using z4 by (simp add: readDepth_def)
  show ?thesis
    using nb edge_bbox [of 1 1 1] edge_accepts_blank(1) p0 step_px z0 step_z rp0 rp rd
    by (simp only: simp_thms)
qed


lemma line_loop_frame:
  "zBuffer (line_loop r steep c sy dx dy x1 x y carry) = zBuffer r \<and>
   width (line_loop r steep c sy dx dy x1 x y carry) = width r \<and>
   height (line_loop r steep c sy dx dy x1 x y carry) = height r \<and>
   length (idata (imageData (line_loop r steep c sy dx dy x1 x y carry))) =
     length (idata (imageData r))"
proof (induction r steep c sy dx dy x1 x y carry rule: line_loop.induct)
  case (1 r steep color sy dx dy x1 x y carry)
  show ?case
  proof (cases "x \<le> x1")
    case False
    then show ?thesis by (subst (1 2 3 4) line_loop.simps) simp
  next
    case le: True
    show ?thesis
    proof (cases "carry + sy > dx")
      case True
      then show ?thesis
        using le "1.IH"(1) by (subst (1 2 3 4) line_loop.simps) simp
    next
      case False
      then show ?thesis
        using le "1.IH"(2) by (subst (1 2 3 4) line_loop.simps) simp
    qed
  qed
qed

lemma line_frame:
  "zBuffer (line r v0 v1 c) = zBuffer r \<and> width (line r v0 v1 c) = width r \<and>
   height (line r v0 v1 c) = height r \<and>
   length (idata (imageData (line r v0 v1 c))) = length (idata (imageData r))"
  unfolding line_def Let_def by (rule line_loop_frame)

lemma depth_shape_cong:
  "zBuffer s = zBuffer r \<Longrightarrow> width s = width r \<Longrightarrow> height s = height r \<Longrightarrow>
   depth_shape s = depth_shape r"
  by (simp add: depth_shape_def)

lemma depth_shape_step:
  assumes "depth_shape r" and "index_in_range r x y"
  shows "depth_shape (triangle_pixel bary r v0 v1 v2 t0 t1 t2 k tex x y)"
proof -
  let ?n = "y * width r + x"
  have n: "0 \<le> ?n" "?n < width r * height r"
    using assms(2) by (simp_all add: index_in_range_def)
  have len: "int (alength (zBuffer r)) = width r * height r"
    and dom: "\<And>m. (arr_get (zBuffer r) m = None) = (m < 0 \<or> width r * height r \<le> m)"
    using assms(1) by (simp_all add: depth_shape_def)
  have "nat ?n + 1 \<le> alength (zBuffer r)" using n len by linarith
  then have l: "int (alength (zBuffer (triangle_pixel bary r v0 v1 v2 t0 t1 t2 k tex x y))) =
                  width r * height r"
    by (simp add: alength_step len max_def)
  have d: "(arr_get (zBuffer (triangle_pixel bary r v0 v1 v2 t0 t1 t2 k tex x y)) m = None) =
             (m < 0 \<or> width r * height r \<le> m)" for m
    using n by (auto simp: zBuffer_triangle_pixel dom)
  show ?thesis
    unfolding depth_shape_def triangle_pixel_width triangle_pixel_height using l d by simp
qed

lemma index_in_range_step [simp]:
  "index_in_range (triangle_pixel bary r v0 v1 v2 t0 t1 t2 k tex x y) i j = index_in_range r i j"
  by (simp add: index_in_range_def)

lemma depth_shape_fold:
  "depth_shape r \<Longrightarrow> list_all (\<lambda>p. index_in_range r (fst p) (snd p)) ps \<Longrightarrow>
   depth_shape (fold (\<lambda>p s. triangle_pixel bary s v0 v1 v2 t0 t1 t2 k tex (fst p) (snd p)) ps r)"
proof (induction ps arbitrary: r)
  case Nil
  then show ?case by simp
next
  case (Cons p ps)
  let ?s = "triangle_pixel bary r v0 v1 v2 t0 t1 t2 k tex (fst p) (snd p)"
  have "depth_shape ?s" using Cons.prems by (simp add: depth_shape_step)
  moreover have "list_all (\<lambda>p. index_in_range ?s (fst p) (snd p)) ps"
    using Cons.prems(2) by simp
  ultimately show ?case using Cons.IH [of ?s] by simp
qed

lemma call_in_range_cong:
  "width s = width r \<Longrightarrow> height s = height r \<Longrightarrow> call_in_range s c = call_in_range r c"
  by (cases c) (simp_all add: index_in_range_def)

lemma draw_frame:
  "width (draw c r) = width r \<and> height (draw c r) = height r \<and>
   length (idata (imageData (draw c r))) = length (idata (imageData r))"
  by (cases c) (simp_all add: line_frame triangle_def triangle_with_frame)

lemma depth_shape_draw:
  assumes "depth_shape r" and "call_in_range r c"
  shows "depth_shape (draw c r)"
proof (cases c)
  case (DrawPixel v col)
  then show ?thesis using assms(1) by (simp add: depth_shape_cong [of "pixel r v col" r])
next
  case (DrawLine v0 v1 col)
  then show ?thesis
    using assms(1) depth_shape_cong [of "line r v0 v1 col" r] by (simp add: line_frame)
next
  case (DrawTriangle v0 v1 v2 t0 t1 t2 k tex)
  then show ?thesis
    using assms by (simp add: triangle_def triangle_with_fold depth_shape_fold)
qed

lemma draws_invariant:
  "depth_shape r \<Longrightarrow> list_all (call_in_range r) cs \<Longrightarrow>
   depth_shape (draws cs r) \<and> width (draws cs r) = width r \<and> height (draws cs r) = height r \<and>
   length (idata (imageData (draws cs r))) = length (idata (imageData r))"
proof (induction cs arbitrary: r)
  case Nil
  then show ?case by (simp add: draws_def)
next
  case (Cons c cs)
  have f: "width (draw c r) = width r" "height (draw c r) = height r"
    "length (idata (imageData (draw c r))) = length (idata (imageData r))"
    using draw_frame [of c r] by simp_all
  have d: "depth_shape (draw c r)" using Cons.prems by (simp add: depth_shape_draw)
  have "call_in_range (draw c r) = call_in_range r"
    by (rule ext) (rule call_in_range_cong [OF f(1,2)])
  then have "list_all (call_in_range (draw c r)) cs"
    using Cons.prems(2) by simp
  from Cons.IH [OF d this] show ?case by (simp add: draws_def f)
qed

lemma depth_shape_blank: "0 < w \<Longrightarrow> 0 < h \<Longrightarrow> depth_shape (blank w h)"
  by (auto simp: depth_shape_def zBuffer_blank alength_blank)

lemma call_in_range_vertices:
  assumes "well_formed r" and "vertex_in_buffer r v0" and "vertex_in_buffer r v1"
    and "vertex_in_buffer r v2"
  shows "call_in_range r (DrawTriangle v0 v1 v2 t0 t1 t2 k tex)"
proof -
  have "index_in_range r (fst p) (snd p)" if "p \<in> set (bbox v0 v1 v2)" for p
  proof -
    have b: "in_buffer r (fst p) (snd p)" using bbox_in_buffer [OF assms(2-4)] that by simp
    have len: "int (length (idata (imageData r))) = width r * height r * 4"
      using assms(1) by (simp add: well_formed_def)
    show ?thesis
      using idx_range [OF assms(1) b] unfolding len by (simp add: index_in_range_def)
  qed
  then show ?thesis by (simp add: list_all_iff)
qed




lemma tall_bbox:
  "bbox (0, 0, z) (1, 0, z') (0, 2, z'') = [(0, 0), (0, 1), (0, 2), (1, 0), (1, 1), (1, 2)]"
  by (simp add: bbox_def min3_def max3_def trunc_def upto.simps)

lemma tall_inside: "tri_inside barycentric (0, 0, z) (1, 0, z') (0, 2, z'') 0 2"
  by (simp add: tri_inside_def barycentric_def cross2_def xy_def Let_def)

lemma tall_outside: "\<not> tri_inside barycentric (0, 0, z) (1, 0, z') (0, 2, z'') 1 2"
  by (simp add: tri_inside_def barycentric_def cross2_def xy_def Let_def)

lemma tall_z: "tri_z barycentric (0, 0, z) (1, 0, z) (0, 2, z) 0 2 = z"
  by (simp add: tri_z_def barycentric_def cross2_def xy_def Let_def)



end
